theory Spec2Isabelle
  imports Main "HOL-Library.AList"
begin

section \<open>Exceptions\<close>

text \<open>
  The exceptions that \<^verbatim>\<open>glad/parse.py\<close> can raise, as values. A computation that may
  raise returns \<open>error + 'a\<close> with \<open>Inl\<close> for the raised exception.
\<close>

datatype error =
    ValueError | KeyError | TypeError | AttributeError
  | AssertionError | IndexError | NameError

section \<open>The string methods the parser uses\<close>

text \<open>
  Python 2 byte strings are modelled as \<open>string\<close>. \<open>str.strip()\<close> without argument
  removes the characters of \<^verbatim>\<open>string.whitespace\<close> from both ends; \<open>str.strip(chars)\<close>
  removes every leading and trailing character that occurs in \<open>chars\<close> (a set of
  characters, not a prefix or suffix).
\<close>

definition whitespace :: string where
  "whitespace = [CHR '' '', CHR 0x09, CHR 0x0A, CHR 0x0B, CHR 0x0C, CHR 0x0D]"

definition strip_chars :: "string \<Rightarrow> string \<Rightarrow> string" where
  "strip_chars chars s =
     rev (dropWhile (\<lambda>c. c \<in> set chars) (rev (dropWhile (\<lambda>c. c \<in> set chars) s)))"

definition strip :: "string \<Rightarrow> string" where
  "strip s = strip_chars whitespace s"

text \<open>
  \<open>s.split(None, 1)\<close>: runs of whitespace separate the words, leading whitespace is
  skipped, and after the first word the rest of the string (without the whitespace in
  front of it) is the second and last item. A string of whitespace only gives \<open>[]\<close>.
\<close>

definition split_None_1 :: "string \<Rightarrow> string list" where
  "split_None_1 s =
     (let s1 = dropWhile (\<lambda>c. c \<in> set whitespace) s in
      if s1 = [] then []
      else let w = takeWhile (\<lambda>c. c \<notin> set whitespace) s1;
               r = dropWhile (\<lambda>c. c \<in> set whitespace)
                     (dropWhile (\<lambda>c. c \<notin> set whitespace) s1)
           in if r = [] then [w] else [w, r])"

text \<open>\<open>xs[0]\<close> raises IndexError on the empty list.\<close>

definition index0 :: "'a list \<Rightarrow> error + 'a" where
  "index0 xs = (case xs of [] \<Rightarrow> Inl IndexError | x # _ \<Rightarrow> Inr x)"

text \<open>
  \<open>s.count(c)\<close> for a pattern of one character, \<open>sub in s\<close>, \<open>s.replace(old, new)\<close> for
  a non-empty \<open>old\<close> (occurrences are replaced from the left and do not overlap; the
  counter is the number of characters of a matched occurrence still to be skipped), and
  \<open>sep.join(xs)\<close> for the empty separator.
\<close>

definition count_char :: "char \<Rightarrow> string \<Rightarrow> nat" where
  "count_char c s = length (filter (\<lambda>d. d = c) s)"

definition startswith :: "string \<Rightarrow> string \<Rightarrow> bool" where
  "startswith s p = (take (length p) s = p)"

fun contains :: "string \<Rightarrow> string \<Rightarrow> bool" where
  "contains [] sub = (sub = [])"
| "contains (c # cs) sub = (startswith (c # cs) sub \<or> contains cs sub)"

fun replace_from :: "nat \<Rightarrow> string \<Rightarrow> string \<Rightarrow> string \<Rightarrow> string" where
  "replace_from k old new [] = []"
| "replace_from (Suc k) old new (c # cs) = replace_from k old new cs"
| "replace_from 0 old new (c # cs) =
     (if startswith (c # cs) old then new @ replace_from (length old - 1) old new cs
      else c # replace_from 0 old new cs)"

definition replace :: "string \<Rightarrow> string \<Rightarrow> string \<Rightarrow> string" where
  "replace s old new = replace_from 0 old new s"

definition join_empty :: "string list \<Rightarrow> string" where
  "join_empty xs = concat xs"

section \<open>The element tree\<close>

text \<open>
  An \<^verbatim>\<open>xml.etree.ElementTree\<close> element: tag, attribute dictionary, the text before the
  first child, the text after the closing tag, and the children. \<open>text\<close> and \<open>tail\<close>
  are None when absent.
\<close>

datatype Element =
  Element (tag: string) (attrib: "(string \<times> string) list")
          (el_text: "string option") (el_tail: "string option")
          (children: "Element list")

text \<open>\<open>element.find(t)\<close> and \<open>element.findall(t)\<close> for a plain tag look at the direct children.\<close>

definition find :: "Element \<Rightarrow> string \<Rightarrow> Element option" where
  "find element t = List.find (\<lambda>e. tag e = t) (children element)"

definition findall :: "Element \<Rightarrow> string \<Rightarrow> Element list" where
  "findall element t = filter (\<lambda>e. tag e = t) (children element)"

text \<open>\<open>element.iter(t)\<close>: the element itself and all its descendants, in document order.\<close>

fun iter :: "Element \<Rightarrow> string \<Rightarrow> Element list" where
  "iter (Element tg at tx ta cs) t =
     (if tg = t then [Element tg at tx ta cs] else []) @ concat (map (\<lambda>e. iter e t) cs)"

text \<open>
  \<open>element.itertext()\<close>: the element's text when it is a non-empty string, then for
  each child its own texts followed by its tail when that is a non-empty string.
\<close>

definition truthy :: "string option \<Rightarrow> string list" where
  "truthy s = (case s of None \<Rightarrow> [] | Some x \<Rightarrow> (if x = [] then [] else [x]))"

fun itertext :: "Element \<Rightarrow> string list" where
  "itertext (Element tg at tx ta cs) =
     truthy tx @ concat (map (\<lambda>e. itertext e @ truthy (el_tail e)) cs)"

text \<open>\<open>element.attrib[k]\<close> raises KeyError; \<open>element.get(k, default)\<close> does not.\<close>

definition attrib_at :: "Element \<Rightarrow> string \<Rightarrow> error + string" where
  "attrib_at element k =
     (case map_of (attrib element) k of None \<Rightarrow> Inl KeyError | Some v \<Rightarrow> Inr v)"

definition get :: "Element \<Rightarrow> string \<Rightarrow> string option" where
  "get element k = map_of (attrib element) k"

definition get_default :: "Element \<Rightarrow> string \<Rightarrow> string \<Rightarrow> string" where
  "get_default element k d = (case map_of (attrib element) k of None \<Rightarrow> d | Some v \<Rightarrow> v)"

section \<open>OGLType\<close>

text \<open>
  \<open>type\<close> is None when the \<open>ptype\<close> child exists and has no text;
  \<open>is_pointer\<close> is the number of stars.
\<close>

record OGLType =
  type :: "string option"
  is_pointer :: nat
  is_const :: bool

text \<open>
  The expression \<^verbatim>\<open>text.strip().strip('const').strip().split(None, 1)[0]\<close> of
  \<open>OGLType.__init__\<close>.
\<close>

definition first_token :: "string \<Rightarrow> error + string" where
  "first_token text = index0 (split_None_1 (strip (strip_chars ''const'' (strip text))))"

definition OGLType_init :: "Element \<Rightarrow> error + OGLType" where
  "OGLType_init element =
     (let text = join_empty (itertext element) in
      case (case find element ''ptype'' of
              None \<Rightarrow> map_sum id Some (first_token text)
            | Some p \<Rightarrow> Inr (el_text p)) of
        Inl e \<Rightarrow> Inl e
      | Inr ty \<Rightarrow> Inr \<lparr> OGLType.type = ty, is_pointer = count_char CHR ''*'' text,
                         is_const = contains text ''const'' \<rparr>)"

text \<open>
  \<open>'...{}...'.format(x)\<close> prints None as \<open>None\<close>; \<open>s += '*' * n\<close> with \<open>s\<close> None raises
  TypeError, and so \<open>to_d\<close> and \<open>to_c\<close> raise for a non-const type whose name is None.
\<close>

definition format_str :: "string option \<Rightarrow> string" where
  "format_str x = (case x of None \<Rightarrow> ''None'' | Some s \<Rightarrow> s)"

definition stars :: "nat \<Rightarrow> string" where
  "stars n = replicate n CHR ''*''"

definition add_stars :: "string option \<Rightarrow> nat \<Rightarrow> error + string" where
  "add_stars s n = (case s of None \<Rightarrow> Inl TypeError | Some x \<Rightarrow> Inr (x @ stars n))"

definition to_d :: "OGLType \<Rightarrow> error + string" where
  "to_d self =
     (case (if is_pointer self > 1 \<and> is_const self
            then add_stars (Some (''const('' @ format_str (OGLType.type self) @ ''*)''))
                   (is_pointer self - 1)
            else add_stars (if is_const self
                            then Some (''const('' @ format_str (OGLType.type self) @ '')'')
                            else OGLType.type self)
                   (is_pointer self)) of
        Inl e \<Rightarrow> Inl e
      | Inr s \<Rightarrow> Inr (replace s ''struct '' ''''))"

definition to_c :: "OGLType \<Rightarrow> error + string" where
  "to_c self =
     add_stars (if is_const self then Some (''const '' @ format_str (OGLType.type self))
                else OGLType.type self)
       (is_pointer self)"

text \<open>
  \<open>s.split(sep)\<close> for a separator of one character, and \<open>map(f, xs)\<close> for an \<open>f\<close> that
  may raise: the first exception ends the iteration.
\<close>

fun split_on :: "char \<Rightarrow> string \<Rightarrow> string list" where
  "split_on sep [] = [[]]"
| "split_on sep (c # cs) =
     (if c = sep then [] # split_on sep cs
      else (case split_on sep cs of
              [] \<Rightarrow> [[c]]
            | w # ws \<Rightarrow> (c # w) # ws))"

fun mapM :: "('a \<Rightarrow> error + 'b) \<Rightarrow> 'a list \<Rightarrow> error + 'b list" where
  "mapM f [] = Inr []"
| "mapM f (x # xs) =
     (case f x of
        Inl e \<Rightarrow> Inl e
      | Inr y \<Rightarrow> (case mapM f xs of Inl e \<Rightarrow> Inl e | Inr ys \<Rightarrow> Inr (y # ys)))"

section \<open>Dictionaries\<close>

text \<open>
  A dictionary is an association list with one entry for each key. \<open>d[k] = v\<close> replaces
  the value of a key that is present and appends a new key (the order an OrderedDict
  keeps); \<open>dict(pairs)\<close> stores the pairs from left to right; \<open>d[a][b] = v\<close> on a
  \<open>defaultdict\<close> creates the inner dictionary of \<open>a\<close> when it is missing; \<open>d[k]\<close> raises
  KeyError for a missing key.
\<close>

definition dict_of :: "('k \<times> 'v) list \<Rightarrow> ('k \<times> 'v) list" where
  "dict_of pairs = foldl (\<lambda>d kv. AList.update (fst kv) (snd kv) d) [] pairs"

definition defaultdict_set ::
  "'a \<Rightarrow> 'b \<Rightarrow> 'v \<Rightarrow> ('a \<times> ('b \<times> 'v) list) list \<Rightarrow> ('a \<times> ('b \<times> 'v) list) list" where
  "defaultdict_set a b v d =
     AList.update a (AList.update b v (case map_of d a of None \<Rightarrow> [] | Some inner \<Rightarrow> inner)) d"

definition dict_at :: "('k \<Rightarrow> 'v option) \<Rightarrow> 'k \<Rightarrow> error + 'v" where
  "dict_at data k = (case data k of None \<Rightarrow> Inl KeyError | Some v \<Rightarrow> Inr v)"

text \<open>\<^verbatim>\<open>try: ... except KeyError: pass\<close> around an expression.\<close>

definition except_KeyError :: "error + 'a \<Rightarrow> error + 'a option" where
  "except_KeyError x =
     (case x of
        Inl e \<Rightarrow> (if e = KeyError then Inr None else Inl e)
      | Inr v \<Rightarrow> Inr (Some v))"

section \<open>The value holders\<close>

record Type =
  raw :: string

definition Type_init :: "Element \<Rightarrow> Type" where
  "Type_init element = \<lparr> raw = join_empty (itertext element) \<rparr>"

definition is_preprocessor :: "Type \<Rightarrow> bool" where
  "is_preprocessor self = contains (raw self) ''#''"

record Group =
  name :: string
  enums :: "string list"

definition Group_init :: "Element \<Rightarrow> error + Group" where
  "Group_init element =
     (case attrib_at element ''name'' of
        Inl e \<Rightarrow> Inl e
      | Inr n \<Rightarrow>
          (case mapM (\<lambda>enum. attrib_at enum ''name'') (children element) of
             Inl e \<Rightarrow> Inl e
           | Inr es \<Rightarrow> Inr \<lparr> Group.name = n, Group.enums = es \<rparr>))"

record Enum =
  name :: string
  "value" :: string
  namespace :: string
  type :: "string option"
  group :: "string option"
  vendor :: "string option"
  comment :: string

definition Enum_init ::
  "string \<Rightarrow> string \<Rightarrow> string \<Rightarrow> string option \<Rightarrow> string option \<Rightarrow> string option
   \<Rightarrow> string \<Rightarrow> Enum" where
  "Enum_init n v ns ty gr ve co =
     \<lparr> Enum.name = n, value = v, namespace = ns, Enum.type = ty, Enum.group = gr,
       vendor = ve, comment = co \<rparr>"

text \<open>
  \<open>x.text\<close> of the result of \<open>find\<close>: AttributeError when \<open>find\<close> returned None.
  The text itself is None for an element without text.
\<close>

definition find_text :: "Element \<Rightarrow> string \<Rightarrow> error + string option" where
  "find_text element t =
     (case find element t of None \<Rightarrow> Inl AttributeError | Some x \<Rightarrow> Inr (el_text x))"

record Proto =
  name :: "string option"
  ret :: OGLType

definition Proto_init :: "Element \<Rightarrow> error + Proto" where
  "Proto_init element =
     (case find_text element ''name'' of
        Inl e \<Rightarrow> Inl e
      | Inr n \<Rightarrow>
          (case OGLType_init element of
             Inl e \<Rightarrow> Inl e
           | Inr t \<Rightarrow> Inr \<lparr> Proto.name = n, ret = t \<rparr>))"

record Param =
  group :: "string option"
  type :: OGLType
  name :: "string option"

definition Param_init :: "Element \<Rightarrow> error + Param" where
  "Param_init element =
     (case OGLType_init element of
        Inl e \<Rightarrow> Inl e
      | Inr t \<Rightarrow>
          (case find_text element ''name'' of
             Inl e \<Rightarrow> Inl e
           | Inr n \<Rightarrow> Inr \<lparr> Param.group = get element ''group'', Param.type = t,
                              Param.name = n \<rparr>))"

record Command =
  proto :: Proto
  params :: "Param list"

text \<open>\<open>Proto(element.find('proto'))\<close> raises AttributeError when there is no \<open>proto\<close>.\<close>

definition Command_init :: "Element \<Rightarrow> error + Command" where
  "Command_init element =
     (case (case find element ''proto'' of
              None \<Rightarrow> Inl AttributeError
            | Some p \<Rightarrow> Proto_init p) of
        Inl e \<Rightarrow> Inl e
      | Inr pr \<Rightarrow>
          (case mapM Param_init (iter element ''param'') of
             Inl e \<Rightarrow> Inl e
           | Inr ps \<Rightarrow> Inr \<lparr> proto = pr, params = ps \<rparr>))"

section \<open>Objects with identity\<close>

text \<open>
  Enum, Command, Extension and Feature objects are shared between collections, so they
  live in a heap and the collections hold references (heap indices). An Extension's
  \<open>require\<close> list holds references to Enum and Command objects. A Feature is an
  Extension with a version number and an API name; its \<open>spec\<close> field is the one
  OpenGLSpec of the state below.
\<close>

type_synonym ref = nat

record Extension =
  name :: string
  require :: "ref list"

record Feature = Extension +
  number :: "int list"
  api :: string

datatype obj =
    EnumObj Enum
  | CommandObj Command
  | ExtensionObj Extension
  | FeatureObj Feature

section \<open>OpenGLSpec\<close>

text \<open>
  The fields of an OpenGLSpec (\<open>u_x\<close> is the source's \<open>_x\<close>), together with the heap of
  the objects its derived collections refer to. A cache field is None until the
  collection is derived. \<open>u_remove\<close> is a Python set of objects; the classes define no
  \<open>__eq__\<close>, so its members are told apart by identity and the set is a set of references.
\<close>

record OpenGLSpec =
  root :: Element
  u_types :: "Type list option"
  u_groups :: "(string \<times> Group) list option"
  u_enums :: "(string \<times> ref) list option"
  u_commands :: "(string option \<times> ref) list option"
  u_features :: "(string \<times> (int list \<times> ref) list) list option"
  u_extensions :: "(string \<times> (string \<times> ref) list) list option"
  u_profile :: string
  u_remove :: "ref set"
  heap :: "obj list"

definition OpenGLSpec_init :: "Element \<Rightarrow> OpenGLSpec" where
  "OpenGLSpec_init r =
     \<lparr> root = r, u_types = None, u_groups = None, u_enums = None, u_commands = None,
       u_features = None, u_extensions = None, u_profile = ''compatability'',
       u_remove = {}, heap = [] \<rparr>"

text \<open>Creating an object gives a reference that no earlier object has.\<close>

definition alloc :: "obj \<Rightarrow> OpenGLSpec \<Rightarrow> ref \<times> OpenGLSpec" where
  "alloc ob s = (length (heap s), s\<lparr> heap := heap s @ [ob] \<rparr>)"

definition deref :: "OpenGLSpec \<Rightarrow> ref \<Rightarrow> obj option" where
  "deref s r = (if r < length (heap s) then Some (heap s ! r) else None)"

subsection \<open>Construction entry points\<close>

text \<open>
  The XML parser \<open>etree.fromstring\<close> and the download \<open>urlopen(url).read()\<close> are
  library code and are parameters. In \<open>fromstring\<close> the argument of the parser is the
  name \<open>raw\<close>. The names bound in that method are its parameters \<open>cls\<close> and \<open>string\<close>,
  the module's globals (the imports and the classes) and the builtins, none of which is
  called \<open>raw\<close>. \<open>load_name\<close> evaluates a name as the parser's argument: a local
  string gives its value, a class or a module is not a string and the parser would
  raise TypeError, and a name that is bound nowhere raises NameError.
\<close>

definition from_url ::
  "(string \<Rightarrow> error + string) \<Rightarrow> (string \<Rightarrow> error + Element) \<Rightarrow> string
   \<Rightarrow> error + OpenGLSpec" where
  "from_url urlopen_read etree_fromstring url =
     (case urlopen_read url of
        Inl e \<Rightarrow> Inl e
      | Inr raw' \<Rightarrow>
          (case etree_fromstring raw' of
             Inl e \<Rightarrow> Inl e
           | Inr r \<Rightarrow> Inr (OpenGLSpec_init r)))"

definition module_names :: "string list" where
  "module_names =
     [''etree'', ''closing'', ''urlopen'', ''chain'', ''defaultdict'', ''OrderedDict'',
      ''OpenGLSpec'', ''Type'', ''Group'', ''Enum'', ''Command'', ''Proto'', ''Param'',
      ''OGLType'', ''Extension'', ''Feature'']"

definition load_name :: "(string \<times> string) list \<Rightarrow> string \<Rightarrow> error + string" where
  "load_name local_strings n =
     (case map_of local_strings n of
        Some v \<Rightarrow> Inr v
      | None \<Rightarrow> (if n \<in> set module_names \<or> n = ''cls'' then Inl TypeError else Inl NameError))"

definition fromstring :: "(string \<Rightarrow> error + Element) \<Rightarrow> string \<Rightarrow> error + OpenGLSpec" where
  "fromstring etree_fromstring string =
     (case load_name [(''string'', string)] ''raw'' of
        Inl e \<Rightarrow> Inl e
      | Inr raw' \<Rightarrow>
          (case etree_fromstring raw' of
             Inl e \<Rightarrow> Inl e
           | Inr r \<Rightarrow> Inr (OpenGLSpec_init r)))"

subsection \<open>Profile and removal set\<close>

definition profile :: "OpenGLSpec \<Rightarrow> string" where
  "profile self = u_profile self"

text \<open>The setter returns the exception, if any, and the state it leaves.\<close>

definition profile_setter :: "string \<Rightarrow> OpenGLSpec \<Rightarrow> (error + unit) \<times> OpenGLSpec" where
  "profile_setter v self =
     (if \<not> (v \<in> set [''core'', ''compatability'']) then (Inl ValueError, self)
      else (Inr (), self\<lparr> u_profile := v \<rparr>))"

definition removed :: "OpenGLSpec \<Rightarrow> ref set" where
  "removed self = (if u_profile self = ''core'' then u_remove self else {})"

subsection \<open>Derived collections\<close>

text \<open>
  Each property returns its value or the exception raised, and the state it leaves.
  \<open>iterating\<close> is \<open>for x in e\<close> for the result \<open>e\<close> of a \<open>find\<close>: None is not iterable.
\<close>

definition types :: "OpenGLSpec \<Rightarrow> Type list \<times> OpenGLSpec" where
  "types self =
     (case u_types self of
        None \<Rightarrow> (let ts = map Type_init (iter (root self) ''types'')
                 in (ts, self\<lparr> u_types := Some ts \<rparr>))
      | Some ts \<Rightarrow> (ts, self))"

definition iterating :: "Element option \<Rightarrow> error + Element list" where
  "iterating e = (case e of None \<Rightarrow> Inl TypeError | Some x \<Rightarrow> Inr (children x))"

definition groups_item :: "Element \<Rightarrow> error + string \<times> Group" where
  "groups_item element =
     (case attrib_at element ''name'' of
        Inl e \<Rightarrow> Inl e
      | Inr n \<Rightarrow> (case Group_init element of Inl e \<Rightarrow> Inl e | Inr g \<Rightarrow> Inr (n, g)))"

definition groups :: "OpenGLSpec \<Rightarrow> (error + (string \<times> Group) list) \<times> OpenGLSpec" where
  "groups self =
     (case u_groups self of
        Some d \<Rightarrow> (Inr d, self)
      | None \<Rightarrow>
          (case iterating (find (root self) ''groups'') of
             Inl e \<Rightarrow> (Inl e, self)
           | Inr elements \<Rightarrow>
               (case mapM groups_item elements of
                  Inl e \<Rightarrow> (Inl e, self)
                | Inr items \<Rightarrow> (Inr (dict_of items), self\<lparr> u_groups := Some (dict_of items) \<rparr>))))"

text \<open>
  \<open>commands\<close>: the list comprehension builds, for each child of the \<open>commands\<close> node,
  the key \<open>element.find('proto').find('name').text\<close> and then the Command. The Command
  objects get their references in document order. When an element raises, the cache
  stays None and the Commands built before it are unreachable, so the state is left as
  it was.
\<close>

definition commands_item :: "Element \<Rightarrow> error + string option \<times> Command" where
  "commands_item element =
     (case (case find element ''proto'' of
              None \<Rightarrow> Inl AttributeError
            | Some p \<Rightarrow> find_text p ''name'') of
        Inl e \<Rightarrow> Inl e
      | Inr k \<Rightarrow> (case Command_init element of Inl e \<Rightarrow> Inl e | Inr c \<Rightarrow> Inr (k, c)))"

fun alloc_items :: "('k \<times> obj) list \<Rightarrow> OpenGLSpec \<Rightarrow> ('k \<times> ref) list \<times> OpenGLSpec" where
  "alloc_items [] s = ([], s)"
| "alloc_items ((k, ob) # rest) s =
     (case alloc ob s of
        (r, s1) \<Rightarrow> (case alloc_items rest s1 of (krs, s2) \<Rightarrow> ((k, r) # krs, s2)))"

definition commands ::
  "OpenGLSpec \<Rightarrow> (error + (string option \<times> ref) list) \<times> OpenGLSpec" where
  "commands self =
     (case u_commands self of
        Some d \<Rightarrow> (Inr d, self)
      | None \<Rightarrow>
          (case iterating (find (root self) ''commands'') of
             Inl e \<Rightarrow> (Inl e, self)
           | Inr elements \<Rightarrow>
               (case mapM commands_item elements of
                  Inl e \<Rightarrow> (Inl e, self)
                | Inr items \<Rightarrow>
                    (case alloc_items (map (\<lambda>kc. (fst kc, CommandObj (snd kc))) items) self of
                       (krs, s1) \<Rightarrow>
                         (Inr (dict_of krs), s1\<lparr> u_commands := Some (dict_of krs) \<rparr>)))))"

text \<open>
  \<open>enums\<close>: \<open>self._enums\<close> is set to a fresh dictionary before the loops and filled in
  place, so an exception leaves the entries stored so far in the cache. The loops
  return the exception, if any, with the dictionary and the state reached.
\<close>

fun enums_inner ::
  "string \<Rightarrow> string option \<Rightarrow> string option \<Rightarrow> string option \<Rightarrow> string \<Rightarrow> Element list
   \<Rightarrow> (string \<times> ref) list \<Rightarrow> OpenGLSpec
   \<Rightarrow> error option \<times> (string \<times> ref) list \<times> OpenGLSpec" where
  "enums_inner ns ty gr ve co [] d s = (None, d, s)"
| "enums_inner ns ty gr ve co (enum # rest) d s =
     (if tag enum = ''unused'' then enums_inner ns ty gr ve co rest d s
      else if tag enum \<noteq> ''enum'' then (Some AssertionError, d, s)
      else
        (case attrib_at enum ''name'' of
           Inl e \<Rightarrow> (Some e, d, s)
         | Inr n \<Rightarrow>
             (case attrib_at enum ''value'' of
                Inl e \<Rightarrow> (Some e, d, s)
              | Inr v \<Rightarrow>
                  (case alloc (EnumObj (Enum_init n v ns ty gr ve co)) s of
                     (r, s1) \<Rightarrow> enums_inner ns ty gr ve co rest (AList.update n r d) s1))))"

fun enums_outer ::
  "Element list \<Rightarrow> (string \<times> ref) list \<Rightarrow> OpenGLSpec
   \<Rightarrow> error option \<times> (string \<times> ref) list \<times> OpenGLSpec" where
  "enums_outer [] d s = (None, d, s)"
| "enums_outer (element # rest) d s =
     (case attrib_at element ''namespace'' of
        Inl e \<Rightarrow> (Some e, d, s)
      | Inr ns \<Rightarrow>
          (case enums_inner ns (get element ''type'') (get element ''group'')
                  (get element ''vendor'') (get_default element ''comment'' [])
                  (children element) d s of
             (Some e, d1, s1) \<Rightarrow> (Some e, d1, s1)
           | (None, d1, s1) \<Rightarrow> enums_outer rest d1 s1))"

definition enums :: "OpenGLSpec \<Rightarrow> (error + (string \<times> ref) list) \<times> OpenGLSpec" where
  "enums self =
     (case u_enums self of
        Some d \<Rightarrow> (Inr d, self)
      | None \<Rightarrow>
          (case enums_outer (iter (root self) ''enums'') [] self of
             (err, d, s1) \<Rightarrow>
               ((case err of Some e \<Rightarrow> Inl e | None \<Rightarrow> Inr d), s1\<lparr> u_enums := Some d \<rparr>)))"

section \<open>Extension and Feature\<close>

text \<open>
  The dictionary display \<^verbatim>\<open>{ 'enum' : spec.enums, 'command' : spec.commands }\<close> reads both
  properties, \<open>enums\<close> first, for every entry that is not a \<open>type\<close>; the subscript
  \<open>[required.tag]\<close> raises KeyError for any other tag, outside the \<open>try\<close>.
\<close>

definition select_data ::
  "string \<Rightarrow> (string \<times> ref) list \<Rightarrow> (string option \<times> ref) list
   \<Rightarrow> error + (string \<Rightarrow> ref option)" where
  "select_data t en cm =
     (if t = ''enum'' then Inr (map_of en)
      else if t = ''command'' then Inr (\<lambda>n. map_of cm (Some n))
      else Inl KeyError)"

definition spec_data ::
  "string \<Rightarrow> OpenGLSpec \<Rightarrow> (error + (string \<Rightarrow> ref option)) \<times> OpenGLSpec" where
  "spec_data t spec =
     (case enums spec of
        (Inl e, s1) \<Rightarrow> (Inl e, s1)
      | (Inr en, s1) \<Rightarrow>
          (case commands s1 of
             (Inl e, s2) \<Rightarrow> (Inl e, s2)
           | (Inr cm, s2) \<Rightarrow> (select_data t en cm, s2)))"

text \<open>\<open>data[entry.attrib['name']]\<close> inside the \<open>try\<close>: None when KeyError was caught.\<close>

definition lookup_entry :: "(string \<Rightarrow> ref option) \<Rightarrow> Element \<Rightarrow> error + ref option" where
  "lookup_entry data entry =
     except_KeyError
       (case attrib_at entry ''name'' of Inl e \<Rightarrow> Inl e | Inr n \<Rightarrow> dict_at data n)"

text \<open>\<open>chain.from_iterable(element.findall(t))\<close>: the children of all \<open>t\<close> blocks.\<close>

definition block_entries :: "Element \<Rightarrow> string \<Rightarrow> Element list" where
  "block_entries element t = concat (map children (findall element t))"

fun require_loop ::
  "Element list \<Rightarrow> ref list \<Rightarrow> OpenGLSpec \<Rightarrow> (error + ref list) \<times> OpenGLSpec" where
  "require_loop [] req spec = (Inr req, spec)"
| "require_loop (required # rest) req spec =
     (if tag required = ''type'' then require_loop rest req spec
      else
        (case spec_data (tag required) spec of
           (Inl e, s1) \<Rightarrow> (Inl e, s1)
         | (Inr data, s1) \<Rightarrow>
             (case lookup_entry data required of
                Inl e \<Rightarrow> (Inl e, s1)
              | Inr None \<Rightarrow> require_loop rest req s1
              | Inr (Some r) \<Rightarrow> require_loop rest (req @ [r]) s1)))"

text \<open>
  \<open>Extension.__init__\<close> fills the fields of the new object; the object gets its
  reference when the constructor call returns it.
\<close>

definition Extension_fields ::
  "Element \<Rightarrow> OpenGLSpec \<Rightarrow> (error + Extension) \<times> OpenGLSpec" where
  "Extension_fields element spec =
     (case attrib_at element ''name'' of
        Inl e \<Rightarrow> (Inl e, spec)
      | Inr n \<Rightarrow>
          (case require_loop (block_entries element ''require'') [] spec of
             (Inl e, s1) \<Rightarrow> (Inl e, s1)
           | (Inr req, s1) \<Rightarrow> (Inr \<lparr> Extension.name = n, require = req \<rparr>, s1)))"

definition Extension_init :: "Element \<Rightarrow> OpenGLSpec \<Rightarrow> (error + ref) \<times> OpenGLSpec" where
  "Extension_init element spec =
     (case Extension_fields element spec of
        (Inl e, s1) \<Rightarrow> (Inl e, s1)
      | (Inr x, s1) \<Rightarrow> (case alloc (ExtensionObj x) s1 of (r, s2) \<Rightarrow> (Inr r, s2)))"

fun remove_loop :: "Element list \<Rightarrow> OpenGLSpec \<Rightarrow> (error + unit) \<times> OpenGLSpec" where
  "remove_loop [] spec = (Inr (), spec)"
| "remove_loop (removed' # rest) spec =
     (if tag removed' = ''type'' then remove_loop rest spec
      else
        (case spec_data (tag removed') spec of
           (Inl e, s1) \<Rightarrow> (Inl e, s1)
         | (Inr data, s1) \<Rightarrow>
             (case lookup_entry data removed' of
                Inl e \<Rightarrow> (Inl e, s1)
              | Inr None \<Rightarrow> remove_loop rest s1
              | Inr (Some r) \<Rightarrow> remove_loop rest (s1\<lparr> u_remove := insert r (u_remove s1) \<rparr>))))"

text \<open>
  \<open>tuple(map(int, element.attrib['number'].split('.')))\<close>; the builtin \<open>int\<close> is a
  parameter.
\<close>

definition version_number :: "(string \<Rightarrow> error + int) \<Rightarrow> Element \<Rightarrow> error + int list" where
  "version_number py_int element =
     (case attrib_at element ''number'' of
        Inl e \<Rightarrow> Inl e
      | Inr n \<Rightarrow> mapM py_int (split_on CHR ''.'' n))"

definition Feature_init ::
  "(string \<Rightarrow> error + int) \<Rightarrow> Element \<Rightarrow> OpenGLSpec \<Rightarrow> (error + ref) \<times> OpenGLSpec" where
  "Feature_init py_int element spec =
     (case Extension_fields element spec of
        (Inl e, s1) \<Rightarrow> (Inl e, s1)
      | (Inr x, s1) \<Rightarrow>
          (case remove_loop (block_entries element ''remove'') s1 of
             (Inl e, s2) \<Rightarrow> (Inl e, s2)
           | (Inr u, s2) \<Rightarrow>
               (case version_number py_int element of
                  Inl e \<Rightarrow> (Inl e, s2)
                | Inr num \<Rightarrow>
                    (case attrib_at element ''api'' of
                       Inl e \<Rightarrow> (Inl e, s2)
                     | Inr a \<Rightarrow>
                         (case alloc (FeatureObj (Extension.extend x
                                        \<lparr> number = num, api = a \<rparr>)) s2 of
                            (r, s3) \<Rightarrow> (Inr r, s3))))))"

subsection \<open>The views of an Extension and of a Feature\<close>

text \<open>
  The views are generators over \<open>self.require\<close>, read in a state \<open>spec\<close>:
  \<open>isinstance\<close> looks at the class of the referenced object, and a Feature's views
  also drop what is in \<open>spec.removed\<close> at the time of the query.
\<close>

definition isinstance_Enum :: "OpenGLSpec \<Rightarrow> ref \<Rightarrow> bool" where
  "isinstance_Enum spec r = (case deref spec r of Some (EnumObj x) \<Rightarrow> True | _ \<Rightarrow> False)"

definition isinstance_Command :: "OpenGLSpec \<Rightarrow> ref \<Rightarrow> bool" where
  "isinstance_Command spec r = (case deref spec r of Some (CommandObj x) \<Rightarrow> True | _ \<Rightarrow> False)"

definition Extension_enums :: "OpenGLSpec \<Rightarrow> 'a Extension_scheme \<Rightarrow> ref list" where
  "Extension_enums spec self = filter (isinstance_Enum spec) (require self)"

definition Extension_functions :: "OpenGLSpec \<Rightarrow> 'a Extension_scheme \<Rightarrow> ref list" where
  "Extension_functions spec self = filter (isinstance_Command spec) (require self)"

definition Feature_enums :: "OpenGLSpec \<Rightarrow> Feature \<Rightarrow> ref list" where
  "Feature_enums spec self =
     filter (\<lambda>enum. \<not> (enum \<in> removed spec)) (Extension_enums spec self)"

definition Feature_functions :: "OpenGLSpec \<Rightarrow> Feature \<Rightarrow> ref list" where
  "Feature_functions spec self =
     filter (\<lambda>func. \<not> (func \<in> removed spec)) (Extension_functions spec self)"

subsection \<open>Equality and hash of objects\<close>

text \<open>
  Enum, Command and Extension define \<open>__hash__\<close>, and no class of the module defines
  \<open>__eq__\<close> or \<open>__cmp__\<close>, so \<open>a == b\<close> compares the identities of the two objects.
  The builtin \<open>hash\<close> is a parameter; a Command's name can be None.
\<close>

definition object_eq :: "ref \<Rightarrow> ref \<Rightarrow> bool" where
  "object_eq a b = (a = b)"

definition Enum_hash :: "(string option \<Rightarrow> int) \<Rightarrow> Enum \<Rightarrow> int" where
  "Enum_hash py_hash self = py_hash (Some (Enum.name self))"

definition Command_hash :: "(string option \<Rightarrow> int) \<Rightarrow> Command \<Rightarrow> int" where
  "Command_hash py_hash self = py_hash (Proto.name (proto self))"

subsection \<open>\<open>features\<close> and \<open>extensions\<close>\<close>

text \<open>
  Both caches are set to an empty \<open>defaultdict\<close> before the loop and filled in place.
  In \<open>d[a][k] = C(element, self)\<close> the constructor runs before the subscripts are
  evaluated.
\<close>

fun features_loop ::
  "(string \<Rightarrow> error + int) \<Rightarrow> Element list \<Rightarrow> (string \<times> (int list \<times> ref) list) list
   \<Rightarrow> OpenGLSpec \<Rightarrow> error option \<times> (string \<times> (int list \<times> ref) list) list \<times> OpenGLSpec" where
  "features_loop py_int [] d s = (None, d, s)"
| "features_loop py_int (element # rest) d s =
     (case version_number py_int element of
        Inl e \<Rightarrow> (Some e, d, s)
      | Inr num \<Rightarrow>
          (case Feature_init py_int element s of
             (Inl e, s1) \<Rightarrow> (Some e, d, s1)
           | (Inr f, s1) \<Rightarrow>
               (case attrib_at element ''api'' of
                  Inl e \<Rightarrow> (Some e, d, s1)
                | Inr a \<Rightarrow> features_loop py_int rest (defaultdict_set a num f d) s1)))"

definition features ::
  "(string \<Rightarrow> error + int) \<Rightarrow> OpenGLSpec
   \<Rightarrow> (error + (string \<times> (int list \<times> ref) list) list) \<times> OpenGLSpec" where
  "features py_int self =
     (case u_features self of
        Some d \<Rightarrow> (Inr d, self)
      | None \<Rightarrow>
          (case features_loop py_int (iter (root self) ''feature'') [] self of
             (err, d, s1) \<Rightarrow>
               ((case err of Some e \<Rightarrow> Inl e | None \<Rightarrow> Inr d), s1\<lparr> u_features := Some d \<rparr>)))"

fun extensions_inner ::
  "Element \<Rightarrow> string list \<Rightarrow> (string \<times> (string \<times> ref) list) list \<Rightarrow> OpenGLSpec
   \<Rightarrow> error option \<times> (string \<times> (string \<times> ref) list) list \<times> OpenGLSpec" where
  "extensions_inner element [] d s = (None, d, s)"
| "extensions_inner element (a # rest) d s =
     (case Extension_init element s of
        (Inl e, s1) \<Rightarrow> (Some e, d, s1)
      | (Inr x, s1) \<Rightarrow>
          (case attrib_at element ''name'' of
             Inl e \<Rightarrow> (Some e, d, s1)
           | Inr n \<Rightarrow> extensions_inner element rest (defaultdict_set a n x d) s1))"

fun extensions_outer ::
  "Element list \<Rightarrow> (string \<times> (string \<times> ref) list) list \<Rightarrow> OpenGLSpec
   \<Rightarrow> error option \<times> (string \<times> (string \<times> ref) list) list \<times> OpenGLSpec" where
  "extensions_outer [] d s = (None, d, s)"
| "extensions_outer (element # rest) d s =
     (case attrib_at element ''supported'' of
        Inl e \<Rightarrow> (Some e, d, s)
      | Inr supported \<Rightarrow>
          (case extensions_inner element (split_on CHR ''|'' supported) d s of
             (Some e, d1, s1) \<Rightarrow> (Some e, d1, s1)
           | (None, d1, s1) \<Rightarrow> extensions_outer rest d1 s1))"

definition extensions ::
  "OpenGLSpec \<Rightarrow> (error + (string \<times> (string \<times> ref) list) list) \<times> OpenGLSpec" where
  "extensions self =
     (case u_extensions self of
        Some d \<Rightarrow> (Inr d, self)
      | None \<Rightarrow>
          (case iterating (find (root self) ''extensions'') of
             Inl e \<Rightarrow> (Inl e, self\<lparr> u_extensions := Some [] \<rparr>)
           | Inr elements \<Rightarrow>
               (case extensions_outer elements [] self of
                  (err, d, s1) \<Rightarrow>
                    ((case err of Some e \<Rightarrow> Inl e | None \<Rightarrow> Inr d),
                     s1\<lparr> u_extensions := Some d \<rparr>))))"

text \<open>Reading a collection: \<open>d[a][k]\<close> as an option, and the object behind a reference.\<close>

definition at2 :: "('a \<times> ('b \<times> 'v) list) list \<Rightarrow> 'a \<Rightarrow> 'b \<Rightarrow> 'v option" where
  "at2 d a k = (case map_of d a of None \<Rightarrow> None | Some inner \<Rightarrow> map_of inner k)"

definition the_Feature :: "OpenGLSpec \<Rightarrow> ref \<Rightarrow> Feature option" where
  "the_Feature spec r = (case deref spec r of Some (FeatureObj f) \<Rightarrow> Some f | _ \<Rightarrow> None)"

definition the_Extension :: "OpenGLSpec \<Rightarrow> ref \<Rightarrow> Extension option" where
  "the_Extension spec r = (case deref spec r of Some (ExtensionObj x) \<Rightarrow> Some x | _ \<Rightarrow> None)"

definition the_Enum :: "OpenGLSpec \<Rightarrow> ref \<Rightarrow> Enum option" where
  "the_Enum spec r = (case deref spec r of Some (EnumObj x) \<Rightarrow> Some x | _ \<Rightarrow> None)"

definition the_Command :: "OpenGLSpec \<Rightarrow> ref \<Rightarrow> Command option" where
  "the_Command spec r = (case deref spec r of Some (CommandObj x) \<Rightarrow> Some x | _ \<Rightarrow> None)"

text \<open>
  The object that a \<open>require\<close> or \<open>remove\<close> entry names in the tables \<open>en\<close> (enums) and
  \<open>cm\<close> (commands), if it names one; and all the nodes of a tree.
\<close>

definition resolve ::
  "(string \<times> ref) list \<Rightarrow> (string option \<times> ref) list \<Rightarrow> Element \<Rightarrow> ref option" where
  "resolve en cm entry =
     (case select_data (tag entry) en cm of
        Inl e \<Rightarrow> None
      | Inr data \<Rightarrow> (case lookup_entry data entry of Inr (Some r) \<Rightarrow> Some r | _ \<Rightarrow> None))"

fun nodes :: "Element \<Rightarrow> Element list" where
  "nodes (Element tg at tx ta cs) = Element tg at tx ta cs # concat (map nodes cs)"

text \<open>A decimal reading of digits, one possible behaviour of \<open>int\<close> on version numbers.\<close>

definition dec_int :: "string \<Rightarrow> error + int" where
  "dec_int s =
     (if s = [] \<or> \<not> list_all (\<lambda>c. c \<in> set ''0123456789'') s then Inl ValueError
      else Inr (foldl (\<lambda>a c. 10 * a + (of_char c - 48)) 0 s))"

section \<open>Notions used in the statements and proofs\<close>

text \<open>
  Relations between a state and a state reached from it by deriving collections and
  constructing objects: the document, the profile and the derived \<open>enums\<close> and
  \<open>commands\<close> tables stay, the heap and the removal set only grow.
\<close>

definition later :: "OpenGLSpec \<Rightarrow> OpenGLSpec \<Rightarrow> bool" where
  "later s s' =
     (root s' = root s \<and> u_profile s' = u_profile s \<and> u_remove s \<subseteq> u_remove s'
      \<and> (\<exists>ys. heap s' = heap s @ ys)
      \<and> (u_enums s \<noteq> None \<longrightarrow> u_enums s' = u_enums s)
      \<and> (u_commands s \<noteq> None \<longrightarrow> u_commands s' = u_commands s))"

text \<open>Both tables are derived; the entry's object in the tables of a state.\<close>

definition derived :: "OpenGLSpec \<Rightarrow> (string \<times> ref) list \<Rightarrow> (string option \<times> ref) list \<Rightarrow> bool" where
  "derived s en cm = (u_enums s = Some en \<and> u_commands s = Some cm)"

definition resolve_in :: "OpenGLSpec \<Rightarrow> Element \<Rightarrow> ref option" where
  "resolve_in spec entry =
     (case u_enums spec of
        None \<Rightarrow> None
      | Some en \<Rightarrow> (case u_commands spec of None \<Rightarrow> None | Some cm \<Rightarrow> resolve en cm entry))"

text \<open>The entries that the loops do not skip.\<close>

definition nontype :: "Element list \<Rightarrow> Element list" where
  "nontype es = filter (\<lambda>x. tag x \<noteq> ''type'') es"

text \<open>
  The \<open>enums\<close> and \<open>commands\<close> tables derive, here or earlier, to \<open>en\<close> and \<open>cm\<close>;
  and every entry is of a kind that the loops know.
\<close>

definition tables_ok ::
  "OpenGLSpec \<Rightarrow> (string \<times> ref) list \<Rightarrow> (string option \<times> ref) list \<Rightarrow> bool" where
  "tables_ok s en cm =
     (fst (enums s) = Inr en \<and> fst (commands (snd (enums s))) = Inr cm)"

definition entry_tags_ok :: "Element list \<Rightarrow> bool" where
  "entry_tags_ok es = list_all (\<lambda>x. tag x \<in> set [''type'', ''enum'', ''command'']) es"


definition enums_keyed :: "(string \<times> ref) list \<Rightarrow> OpenGLSpec \<Rightarrow> bool" where
  "enums_keyed d s =
     (\<forall>n r. map_of d n = Some r \<longrightarrow> (\<exists>x. the_Enum s r = Some x \<and> Enum.name x = n))"

definition commands_keyed :: "(string option \<times> ref) list \<Rightarrow> OpenGLSpec \<Rightarrow> bool" where
  "commands_keyed d s =
     (\<forall>k r. map_of d k = Some r \<longrightarrow>
        (\<exists>c. the_Command s r = Some c \<and> Proto.name (proto c) = k))"



section \<open>An example registry\<close>

text \<open>
  A small document: one constant, two commands, feature 1.0 requiring \<open>glFoo\<close>, \<open>FOO\<close>
  and an unknown command, feature 2.0 removing \<open>glFoo\<close>, and one extension supported by
  two API variants.
\<close>

definition example_command :: "string \<Rightarrow> Element" where
  "example_command n =
     Element ''command'' [] None None
       [Element ''proto'' [] (Some ''void '') None [Element ''name'' [] (Some n) None []]]"

definition example_entry :: "string \<Rightarrow> string \<Rightarrow> Element" where
  "example_entry t n = Element t [(''name'', n)] None None []"

definition example_feature_1 :: Element where
  "example_feature_1 =
     Element ''feature'' [(''api'', ''gl''), (''name'', ''V1''), (''number'', ''1.0'')] None None
       [Element ''require'' [] None None
          [example_entry ''command'' ''glFoo'', example_entry ''enum'' ''FOO'',
           example_entry ''command'' ''glNope'']]"

definition example_feature_2 :: Element where
  "example_feature_2 =
     Element ''feature'' [(''api'', ''gl''), (''name'', ''V2''), (''number'', ''2.0'')] None None
       [Element ''remove'' [] None None [example_entry ''command'' ''glFoo'']]"

definition example_extension :: Element where
  "example_extension =
     Element ''extension'' [(''name'', ''GL_X''), (''supported'', ''gl|gles2'')] None None
       [Element ''require'' [] None None
          [example_entry ''command'' ''glBar'', example_entry ''command'' ''glNope'']]"

definition example_registry :: Element where
  "example_registry =
     Element ''registry'' [] None None
       [Element ''enums'' [(''namespace'', ''GL'')] None None
          [Element ''enum'' [(''name'', ''FOO''), (''value'', ''0x1'')] None None []],
        Element ''commands'' [] None None [example_command ''glFoo'', example_command ''glBar''],
        example_feature_1, example_feature_2,
        Element ''extensions'' [] None None [example_extension]]"

definition example_core :: OpenGLSpec where
  "example_core = snd (profile_setter ''core'' (OpenGLSpec_init example_registry))"

text \<open>Two Enum objects built from the same arguments, one after the other.\<close>

definition example_enum :: Enum where
  "example_enum = Enum_init ''A'' ''1'' ''GL'' None None None []"

definition two_enums :: OpenGLSpec where
  "two_enums =
     snd (alloc (EnumObj example_enum)
            (snd (alloc (EnumObj example_enum) (OpenGLSpec_init example_registry))))"

section \<open>How the operations change the state\<close>

lemma later_refl: "later s s"
  by (simp add: later_def)

lemma later_trans: "later a b \<Longrightarrow> later b c \<Longrightarrow> later a c"
  unfolding later_def by (elim conjE exE) (auto)

lemma self_heap [simp]: "\<exists>ys. s = s\<lparr> heap := heap s @ ys \<rparr>"
  by (rule exI [of _ "[]"]) simp

lemma self_heap_enums [simp]:
  "(\<exists>ys. s = s\<lparr> heap := heap s @ ys, u_enums := d \<rparr>) \<longleftrightarrow> u_enums s = d"
proof
  assume "\<exists>ys. s = s\<lparr> heap := heap s @ ys, u_enums := d \<rparr>"
  then obtain ys where "s = s\<lparr> heap := heap s @ ys, u_enums := d \<rparr>" ..
  then have "u_enums s = u_enums (s\<lparr> heap := heap s @ ys, u_enums := d \<rparr>)" by simp
  then show "u_enums s = d" by simp
next
  assume "u_enums s = d"
  then show "\<exists>ys. s = s\<lparr> heap := heap s @ ys, u_enums := d \<rparr>"
    by (intro exI [of _ "[]"]) auto
qed

lemma self_heap_commands [simp]:
  "(\<exists>ys. s = s\<lparr> heap := heap s @ ys, u_commands := d \<rparr>) \<longleftrightarrow> u_commands s = d"
proof
  assume "\<exists>ys. s = s\<lparr> heap := heap s @ ys, u_commands := d \<rparr>"
  then obtain ys where "s = s\<lparr> heap := heap s @ ys, u_commands := d \<rparr>" ..
  then have "u_commands s = u_commands (s\<lparr> heap := heap s @ ys, u_commands := d \<rparr>)" by simp
  then show "u_commands s = d" by simp
next
  assume "u_commands s = d"
  then show "\<exists>ys. s = s\<lparr> heap := heap s @ ys, u_commands := d \<rparr>"
    by (intro exI [of _ "[]"]) auto
qed

lemma enums_inner_heap:
  "enums_inner ns ty gr ve co es d s = (err, d', s') \<Longrightarrow> \<exists>ys. s' = s\<lparr> heap := heap s @ ys \<rparr>"
proof (induction es arbitrary: d s)
  case Nil
  then show ?case by simp
next
  case (Cons enum es)
  from Cons.prems show ?case
    by (auto simp: alloc_def split: if_splits sum.splits dest!: Cons.IH)
qed

lemma enums_outer_heap:
  "enums_outer es d s = (err, d', s') \<Longrightarrow> \<exists>ys. s' = s\<lparr> heap := heap s @ ys \<rparr>"
proof (induction es arbitrary: d s)
  case Nil
  then show ?case by simp
next
  case (Cons element es)
  from Cons.prems show ?case
    by (auto split: sum.splits prod.splits option.splits dest!: Cons.IH enums_inner_heap)
qed

lemma enums_cached: "u_enums s = Some en \<Longrightarrow> enums s = (Inr en, s)"
  by (simp add: enums_def)

lemma enums_shape:
  "enums s = (res, s') \<Longrightarrow>
     (\<exists>ys. s' = s\<lparr> heap := heap s @ ys, u_enums := u_enums s' \<rparr>)
     \<and> (u_enums s \<noteq> None \<longrightarrow> s' = s)
     \<and> u_enums s' \<noteq> None
     \<and> (\<forall>en. res = Inr en \<longrightarrow> u_enums s' = Some en)"
  by (auto simp: enums_def split: option.splits prod.splits dest!: enums_outer_heap)

lemma alloc_items_heap:
  "alloc_items items s = (krs, s') \<Longrightarrow> \<exists>ys. s' = s\<lparr> heap := heap s @ ys \<rparr>"
proof (induction items arbitrary: s krs)
  case Nil
  then show ?case by simp
next
  case (Cons a items)
  obtain k ob where a: "a = (k, ob)" by (cases a)
  from Cons.prems show ?case unfolding a
    by (auto simp: alloc_def split: prod.splits dest!: Cons.IH)
qed

lemma commands_cached: "u_commands s = Some cm \<Longrightarrow> commands s = (Inr cm, s)"
  by (simp add: commands_def)

lemma commands_shape:
  "commands s = (res, s') \<Longrightarrow>
     (\<exists>ys. s' = s\<lparr> heap := heap s @ ys, u_commands := u_commands s' \<rparr>)
     \<and> (u_commands s \<noteq> None \<longrightarrow> s' = s)
     \<and> (\<forall>cm. res = Inr cm \<longrightarrow> u_commands s' = Some cm)"
  by (auto simp: commands_def split: option.splits prod.splits sum.splits dest!: alloc_items_heap)

lemma enums_later: "enums s = (res, s') \<Longrightarrow> later s s' \<and> u_remove s' = u_remove s \<and> u_commands s' = u_commands s"
  apply (drule enums_shape)
  apply (elim conjE exE)
  apply (erule ssubst)
  apply (auto simp: later_def)
  done

lemma commands_later:
  "commands s = (res, s') \<Longrightarrow> later s s' \<and> u_remove s' = u_remove s \<and> u_enums s' = u_enums s"
  apply (drule commands_shape)
  apply (elim conjE exE)
  apply (erule ssubst)
  apply (auto simp: later_def)
  done

lemma derived_later: "derived s en cm \<Longrightarrow> later s s' \<Longrightarrow> derived s' en cm"
  by (auto simp: derived_def later_def)

lemma resolve_in_derived: "derived s en cm \<Longrightarrow> resolve_in s x = resolve en cm x"
  by (simp add: derived_def resolve_in_def)

lemma spec_data_cached:
  "derived s en cm \<Longrightarrow> spec_data t s = (select_data t en cm, s)"
  by (simp add: spec_data_def derived_def enums_cached commands_cached)

lemma spec_data_shape:
  assumes "spec_data t s = (res, s')"
  shows "later s s' \<and> u_remove s' = u_remove s
         \<and> (\<forall>data. res = Inr data \<longrightarrow> (\<exists>en cm. derived s' en cm \<and> select_data t en cm = Inr data))"
proof -
  obtain r1 s1 where e: "enums s = (r1, s1)" by (cases "enums s")
  note el = enums_later [OF e]
  show ?thesis
  proof (cases r1)
    case (Inl x)
    with assms e el show ?thesis by (auto simp: spec_data_def)
  next
    case (Inr en)
    with e enums_shape [OF e] have en: "u_enums s1 = Some en" by simp
    obtain r2 s2 where c: "commands s1 = (r2, s2)" by (cases "commands s1")
    note cl = commands_later [OF c]
    show ?thesis
    proof (cases r2)
      case (Inl x)
      with assms e c \<open>r1 = Inr en\<close> el cl show ?thesis
        by (auto simp: spec_data_def intro: later_trans)
    next
      case (Inr cm)
      with c commands_shape [OF c] have cm: "u_commands s2 = Some cm" by simp
      from assms e c \<open>r1 = Inr en\<close> Inr have res: "res = select_data t en cm" "s' = s2"
        by (auto simp: spec_data_def)
      from en cl cm have "derived s2 en cm" by (simp add: derived_def)
      with res el cl show ?thesis by (auto intro: later_trans)
    qed
  qed
qed

lemma lookup_entry_Inr: "\<exists>ro. lookup_entry data x = Inr ro"
  by (auto simp: lookup_entry_def except_KeyError_def attrib_at_def dict_at_def split: option.splits)

lemma resolve_lookup:
  "select_data (tag x) en cm = Inr data \<Longrightarrow> lookup_entry data x = Inr ro \<Longrightarrow> resolve en cm x = ro"
  by (auto simp: resolve_def split: option.splits)

lemma require_loop_later:
  "require_loop es req s = (res, s') \<Longrightarrow> later s s' \<and> u_remove s' = u_remove s"
proof (induction es arbitrary: req s)
  case Nil
  then show ?case by (simp add: later_refl)
next
  case (Cons x es)
  show ?case
  proof (cases "tag x = ''type''")
    case True
    with Cons show ?thesis by simp
  next
    case False
    obtain r1 s1 where sd: "spec_data (tag x) s = (r1, s1)" by (cases "spec_data (tag x) s")
    note sh = spec_data_shape [OF sd]
    show ?thesis
    proof (cases r1)
      case (Inl e)
      with False sd Cons.prems sh show ?thesis by auto
    next
      case (Inr data)
      obtain ro where lk: "lookup_entry data x = Inr ro" using lookup_entry_Inr by blast
      from False sd Inr lk Cons.prems
      have "\<exists>req1. require_loop es req1 s1 = (res, s')"
        by (cases ro) auto
      then obtain req1 where "require_loop es req1 s1 = (res, s')" ..
      from Cons.IH [OF this] sh show ?thesis by (auto intro: later_trans)
    qed
  qed
qed

lemma require_loop_result:
  "require_loop es req s = (Inr req', s')
   \<Longrightarrow> req' = req @ List.map_filter (resolve_in s') (nontype es)"
proof (induction es arbitrary: req s)
  case Nil
  then show ?case by (simp add: nontype_def map_filter_simps)
next
  case (Cons x es)
  show ?case
  proof (cases "tag x = ''type''")
    case True
    with Cons show ?thesis by (simp add: nontype_def)
  next
    case False
    obtain r1 s1 where sd: "spec_data (tag x) s = (r1, s1)" by (cases "spec_data (tag x) s")
    note sh = spec_data_shape [OF sd]
    show ?thesis
    proof (cases r1)
      case (Inl e)
      with False sd Cons.prems show ?thesis by auto
    next
      case (Inr data)
      with sh obtain en cm where d1: "derived s1 en cm" and sel: "select_data (tag x) en cm = Inr data"
        by blast
      obtain ro where lk: "lookup_entry data x = Inr ro" using lookup_entry_Inr by blast
      note rs = resolve_lookup [OF sel lk]
      let ?req1 = "req @ (case ro of None \<Rightarrow> [] | Some r \<Rightarrow> [r])"
      from False sd Inr lk Cons.prems
      have rec: "require_loop es ?req1 s1 = (Inr req', s')"
        by (cases ro) auto
      from require_loop_later [OF rec] d1 have "derived s' en cm"
        by (auto intro: derived_later)
      then have "resolve_in s' x = ro" using rs by (simp add: resolve_in_derived)
      with Cons.IH [OF rec] False show ?thesis
        by (cases ro) (auto simp: nontype_def map_filter_simps)
    qed
  qed
qed

lemma remove_loop_later:
  "remove_loop es s = (res, s') \<Longrightarrow> later s s'"
proof (induction es arbitrary: s)
  case Nil
  then show ?case by (simp add: later_refl)
next
  case (Cons x es)
  show ?case
  proof (cases "tag x = ''type''")
    case True
    with Cons show ?thesis by simp
  next
    case False
    obtain r1 s1 where sd: "spec_data (tag x) s = (r1, s1)" by (cases "spec_data (tag x) s")
    note sh = spec_data_shape [OF sd]
    show ?thesis
    proof (cases r1)
      case (Inl e)
      with False sd Cons.prems sh show ?thesis by auto
    next
      case (Inr data)
      obtain ro where lk: "lookup_entry data x = Inr ro" using lookup_entry_Inr by blast
      let ?s1 = "case ro of None \<Rightarrow> s1 | Some r \<Rightarrow> s1\<lparr> u_remove := insert r (u_remove s1) \<rparr>"
      from False sd Inr lk Cons.prems
      have rec: "remove_loop es ?s1 = (res, s')"
        by (cases ro) auto
      have "later s1 ?s1" by (cases ro) (auto simp: later_def)
      with Cons.IH [OF rec] sh show ?thesis by (auto intro: later_trans)
    qed
  qed
qed

lemma remove_loop_result:
  "remove_loop es s = (Inr u, s')
   \<Longrightarrow> u_remove s' = u_remove s \<union> set (List.map_filter (resolve_in s') (nontype es))"
proof (induction es arbitrary: s)
  case Nil
  then show ?case by (simp add: nontype_def map_filter_simps)
next
  case (Cons x es)
  show ?case
  proof (cases "tag x = ''type''")
    case True
    with Cons show ?thesis by (simp add: nontype_def)
  next
    case False
    obtain r1 s1 where sd: "spec_data (tag x) s = (r1, s1)" by (cases "spec_data (tag x) s")
    note sh = spec_data_shape [OF sd]
    show ?thesis
    proof (cases r1)
      case (Inl e)
      with False sd Cons.prems show ?thesis by auto
    next
      case (Inr data)
      with sh obtain en cm where d1: "derived s1 en cm" and sel: "select_data (tag x) en cm = Inr data"
        by blast
      obtain ro where lk: "lookup_entry data x = Inr ro" using lookup_entry_Inr by blast
      note rs = resolve_lookup [OF sel lk]
      let ?s1 = "case ro of None \<Rightarrow> s1 | Some r \<Rightarrow> s1\<lparr> u_remove := insert r (u_remove s1) \<rparr>"
      from False sd Inr lk Cons.prems
      have rec: "remove_loop es ?s1 = (Inr u, s')"
        by (cases ro) auto
      have l1: "later s1 ?s1" by (cases ro) (auto simp: later_def)
      from remove_loop_later [OF rec] l1 d1 have "derived s' en cm"
        by (auto intro: derived_later)
      then have "resolve_in s' x = ro" using rs by (simp add: resolve_in_derived)
      moreover have "u_remove ?s1 = u_remove s \<union> set_option ro"
        using sh by (cases ro) auto
      ultimately show ?thesis using Cons.IH [OF rec] False
        by (cases ro) (auto simp: nontype_def map_filter_simps)
    qed
  qed
qed

lemma alloc_later: "alloc ob s = (r, s') \<Longrightarrow> later s s' \<and> u_remove s' = u_remove s"
  by (auto simp: alloc_def later_def)

lemma resolve_in_cong:
  "u_enums s = u_enums s' \<Longrightarrow> u_commands s = u_commands s' \<Longrightarrow> resolve_in s = resolve_in s'"
  by (rule ext) (simp add: resolve_in_def split: option.splits)

lemma require_loop_derived:
  "require_loop es req s = (Inr req', s') \<Longrightarrow> nontype es \<noteq> [] \<Longrightarrow> \<exists>en cm. derived s' en cm"
proof (induction es arbitrary: req s)
  case Nil
  then show ?case by (simp add: nontype_def)
next
  case (Cons x es)
  show ?case
  proof (cases "tag x = ''type''")
    case True
    with Cons show ?thesis by (simp add: nontype_def)
  next
    case False
    obtain r1 s1 where sd: "spec_data (tag x) s = (r1, s1)" by (cases "spec_data (tag x) s")
    note sh = spec_data_shape [OF sd]
    show ?thesis
    proof (cases r1)
      case (Inl e)
      with False sd Cons.prems show ?thesis by auto
    next
      case (Inr data)
      with sh obtain en cm where d1: "derived s1 en cm" by blast
      obtain ro where lk: "lookup_entry data x = Inr ro" using lookup_entry_Inr by blast
      from False sd Inr lk Cons.prems
      have "\<exists>req1. require_loop es req1 s1 = (Inr req', s')"
        by (cases ro) auto
      then obtain req1 where "require_loop es req1 s1 = (Inr req', s')" ..
      from require_loop_later [OF this] d1 show ?thesis by (auto intro: derived_later)
    qed
  qed
qed

lemma resolve_in_later:
  "derived s en cm \<Longrightarrow> later s s' \<Longrightarrow> resolve_in s' = resolve_in s"
  by (rule resolve_in_cong) (auto simp: derived_def later_def)

lemma require_loop_result_later:
  assumes "require_loop es req s = (Inr req', s')" and "later s' s''"
  shows "req' = req @ List.map_filter (resolve_in s'') (nontype es)"
proof (cases "nontype es = []")
  case True
  with require_loop_result [OF assms(1)] show ?thesis by (simp add: map_filter_simps)
next
  case False
  from require_loop_derived [OF assms(1) False] obtain en cm where "derived s' en cm" by blast
  from resolve_in_later [OF this assms(2)] require_loop_result [OF assms(1)] show ?thesis by simp
qed

lemma Extension_fields_later:
  "Extension_fields element s = (res, s') \<Longrightarrow> later s s' \<and> u_remove s' = u_remove s"
  by (auto simp: Extension_fields_def later_refl split: sum.splits prod.splits
      dest!: require_loop_later)

lemma Extension_fields_result:
  assumes "Extension_fields element s = (Inr x, s')" and "later s' s''"
  shows "attrib_at element ''name'' = Inr (Extension.name x)
         \<and> require x = List.map_filter (resolve_in s'') (nontype (block_entries element ''require''))"
proof -
  from assms(1) obtain n req where n: "attrib_at element ''name'' = Inr n"
    and rl: "require_loop (block_entries element ''require'') [] s = (Inr req, s')"
    and x: "x = \<lparr> Extension.name = n, require = req \<rparr>"
    by (auto simp: Extension_fields_def split: sum.splits prod.splits)
  from require_loop_result_later [OF rl assms(2)] n x show ?thesis by simp
qed



lemma remove_loop_derived:
  "remove_loop es s = (Inr u, s') \<Longrightarrow> nontype es \<noteq> [] \<Longrightarrow> \<exists>en cm. derived s' en cm"
proof (induction es arbitrary: s)
  case Nil
  then show ?case by (simp add: nontype_def)
next
  case (Cons x es)
  show ?case
  proof (cases "tag x = ''type''")
    case True
    with Cons show ?thesis by (simp add: nontype_def)
  next
    case False
    obtain r1 s1 where sd: "spec_data (tag x) s = (r1, s1)" by (cases "spec_data (tag x) s")
    note sh = spec_data_shape [OF sd]
    show ?thesis
    proof (cases r1)
      case (Inl e)
      with False sd Cons.prems show ?thesis by auto
    next
      case (Inr data)
      with sh obtain en cm where d1: "derived s1 en cm" by blast
      obtain ro where lk: "lookup_entry data x = Inr ro" using lookup_entry_Inr by blast
      let ?s1 = "case ro of None \<Rightarrow> s1 | Some r \<Rightarrow> s1\<lparr> u_remove := insert r (u_remove s1) \<rparr>"
      from False sd Inr lk Cons.prems
      have rec: "remove_loop es ?s1 = (Inr u, s')"
        by (cases ro) auto
      have l1: "later s1 ?s1" by (cases ro) (auto simp: later_def)
      from derived_later [OF derived_later [OF d1 l1] remove_loop_later [OF rec]]
      show ?thesis by blast
    qed
  qed
qed

lemma remove_loop_result_later:
  assumes "remove_loop es s = (Inr u, s')" and "later s' s''"
  shows "u_remove s' = u_remove s \<union> set (List.map_filter (resolve_in s'') (nontype es))"
proof (cases "nontype es = []")
  case True
  with remove_loop_result [OF assms(1)] show ?thesis by (simp add: map_filter_simps)
next
  case False
  from remove_loop_derived [OF assms(1) False] obtain en cm where "derived s' en cm" by blast
  from resolve_in_later [OF this assms(2)] remove_loop_result [OF assms(1)] show ?thesis by simp
qed

lemma Feature_init_later:
  "Feature_init py_int element s = (res, s') \<Longrightarrow> later s s'"
  by (auto simp: Feature_init_def split: sum.splits prod.splits
      dest!: Extension_fields_later alloc_later remove_loop_later intro: later_trans)

lemma Feature_init_result:
  assumes "Feature_init py_int element s = (Inr r, s')"
  shows "length (heap s) \<le> r \<and> Suc r = length (heap s')
         \<and> u_remove s' = u_remove s
              \<union> set (List.map_filter (resolve_in s') (nontype (block_entries element ''remove'')))
         \<and> (\<exists>f. the_Feature s' r = Some f
                \<and> attrib_at element ''name'' = Inr (Extension.name f)
                \<and> attrib_at element ''api'' = Inr (api f)
                \<and> version_number py_int element = Inr (number f)
                \<and> require f = List.map_filter (resolve_in s')
                                  (nontype (block_entries element ''require'')))"
proof -
  from assms obtain x s1 u s2 num a where f: "Extension_fields element s = (Inr x, s1)"
    and rm: "remove_loop (block_entries element ''remove'') s1 = (Inr u, s2)"
    and num: "version_number py_int element = Inr num"
    and api: "attrib_at element ''api'' = Inr a"
    and al: "alloc (FeatureObj (Extension.extend x \<lparr> number = num, api = a \<rparr>)) s2 = (r, s')"
    by (auto simp: Feature_init_def split: sum.splits prod.splits)
  from Extension_fields_later [OF f] have l01: "later s s1" and r01: "u_remove s1 = u_remove s"
    by simp_all
  note l12 = remove_loop_later [OF rm]
  from alloc_later [OF al] have l23: "later s2 s'" and r23: "u_remove s' = u_remove s2" by simp_all
  from l01 l12 have len: "length (heap s) \<le> length (heap s2)" by (auto simp: later_def)
  from al have r: "r = length (heap s2)"
    "heap s' = heap s2 @ [FeatureObj (Extension.extend x \<lparr> number = num, api = a \<rparr>)]"
    by (auto simp: alloc_def)
  then have t: "the_Feature s' r = Some (Extension.extend x \<lparr> number = num, api = a \<rparr>)"
    by (simp add: the_Feature_def deref_def)
  from Extension_fields_result [OF f later_trans [OF l12 l23]]
  have x: "attrib_at element ''name'' = Inr (Extension.name x)"
    "require x = List.map_filter (resolve_in s') (nontype (block_entries element ''require''))"
    by simp_all
  from remove_loop_result_later [OF rm l23] r01 r23
  have "u_remove s' = u_remove s
      \<union> set (List.map_filter (resolve_in s') (nontype (block_entries element ''remove'')))"
    by simp
  with t x num api r len show ?thesis
    by (simp add: Extension.extend_def Extension.defs Feature.defs)
qed

lemma iter_nodes: "iter e t = filter (\<lambda>x. tag x = t) (nodes e)"
proof (induction e)
  case (Element tg at tx ta cs)
  have "concat (map (\<lambda>e. iter e t) cs) = concat (map (\<lambda>e. filter (\<lambda>x. tag x = t) (nodes e)) cs)"
    using Element.IH by (induction cs) auto
  then show ?case by (simp add: filter_concat comp_def)
qed

lemma iter_empty: "(\<forall>x \<in> set (nodes e). tag x \<noteq> t) \<Longrightarrow> iter e t = []"
  by (simp add: iter_nodes filter_empty_conv)

lemma find_absent: "(\<forall>c \<in> set (children e). tag c \<noteq> t) \<Longrightarrow> find e t = None"
  by (auto simp: find_def find_None_iff)

lemma set_map_filter: "set (List.map_filter f xs) = {y. \<exists>x \<in> set xs. f x = Some y}"
  by (induction xs) (auto simp: map_filter_simps split: option.splits)

lemma at2_defaultdict_set:
  "at2 (defaultdict_set a b v d) a' b' = (if a' = a \<and> b' = b then Some v else at2 d a' b')"
  by (auto simp: at2_def defaultdict_set_def update_conv' split: option.splits)

lemma deref_later: "later s s' \<Longrightarrow> deref s r = Some ob \<Longrightarrow> deref s' r = Some ob"
  by (auto simp: later_def deref_def nth_append split: if_splits)

lemma the_Feature_later: "later s s' \<Longrightarrow> the_Feature s r = Some f \<Longrightarrow> the_Feature s' r = Some f"
  by (auto simp: the_Feature_def split: option.splits obj.splits dest: deref_later)

lemma Feature_init_result_later:
  assumes "Feature_init py_int element s = (Inr r, s')" and "later s' s''"
  shows "u_remove s' = u_remove s
              \<union> set (List.map_filter (resolve_in s'') (nontype (block_entries element ''remove'')))
         \<and> (\<exists>f. the_Feature s' r = Some f
                \<and> require f = List.map_filter (resolve_in s'')
                                  (nontype (block_entries element ''require'')))"
proof -
  from assms obtain x s1 u s2 num a where f: "Extension_fields element s = (Inr x, s1)"
    and rm: "remove_loop (block_entries element ''remove'') s1 = (Inr u, s2)"
    and al: "alloc (FeatureObj (Extension.extend x \<lparr> number = num, api = a \<rparr>)) s2 = (r, s')"
    by (auto simp: Feature_init_def split: sum.splits prod.splits)
  from Extension_fields_later [OF f] have r01: "u_remove s1 = u_remove s" by simp
  note l12 = remove_loop_later [OF rm]
  from alloc_later [OF al] have l23: "later s2 s'" and r23: "u_remove s' = u_remove s2" by simp_all
  from al have "heap s' = heap s2 @ [FeatureObj (Extension.extend x \<lparr> number = num, api = a \<rparr>)]"
    "r = length (heap s2)"
    by (auto simp: alloc_def)
  then have t: "the_Feature s' r = Some (Extension.extend x \<lparr> number = num, api = a \<rparr>)"
    by (simp add: the_Feature_def deref_def)
  from Extension_fields_result [OF f later_trans [OF l12 later_trans [OF l23 assms(2)]]]
  have x: "require x = List.map_filter (resolve_in s'') (nontype (block_entries element ''require''))"
    by simp
  from remove_loop_result_later [OF rm later_trans [OF l23 assms(2)]] r01 r23
  have "u_remove s' = u_remove s
      \<union> set (List.map_filter (resolve_in s'') (nontype (block_entries element ''remove'')))"
    by simp
  with t x show ?thesis
    by (simp add: Extension.extend_def Extension.defs Feature.defs)
qed

lemma features_loop_later:
  "features_loop py_int es d s = (err, d', s') \<Longrightarrow> later s s'"
proof (induction es arbitrary: d s)
  case Nil
  then show ?case by (simp add: later_refl)
next
  case (Cons element es)
  from Cons.prems show ?case
    by (auto simp: later_refl split: sum.splits prod.splits
        dest!: Cons.IH Feature_init_later intro: later_trans)
qed

lemma features_loop_removals:
  "features_loop py_int es d s = (None, d', s')
   \<Longrightarrow> u_remove s' = u_remove s
        \<union> (\<Union>element \<in> set es.
              set (List.map_filter (resolve_in s') (nontype (block_entries element ''remove''))))"
proof (induction es arbitrary: d s)
  case Nil
  then show ?case by simp
next
  case (Cons element es)
  from Cons.prems obtain num f s1 a where
    fi: "Feature_init py_int element s = (Inr f, s1)"
    and rec: "features_loop py_int es (defaultdict_set a num f d) s1 = (None, d', s')"
    by (auto split: sum.splits prod.splits)
  from Feature_init_result_later [OF fi features_loop_later [OF rec]] Cons.IH [OF rec]
  show ?case by auto
qed

lemma features_loop_entries:
  "features_loop py_int es d s = (err, d', s')
   \<Longrightarrow> (\<forall>a n r. at2 d a n = Some r \<longrightarrow> (\<exists>f. the_Feature s r = Some f))
   \<Longrightarrow> (\<forall>a n r. at2 d' a n = Some r \<longrightarrow> (\<exists>f. the_Feature s' r = Some f))"
proof (induction es arbitrary: d s)
  case Nil
  then show ?case by simp
next
  case (Cons element es)
  show ?case
  proof (cases "\<exists>num f s1 a. Feature_init py_int element s = (Inr f, s1)
        \<and> features_loop py_int es (defaultdict_set a num f d) s1 = (err, d', s')")
    case True
    then obtain num f s1 a where
      fi: "Feature_init py_int element s = (Inr f, s1)"
      and rec: "features_loop py_int es (defaultdict_set a num f d) s1 = (err, d', s')"
      by blast
    from Feature_init_result [OF fi] obtain ft where ft: "the_Feature s1 f = Some ft" by blast
    have "\<forall>a' n r. at2 (defaultdict_set a num f d) a' n = Some r \<longrightarrow> (\<exists>f. the_Feature s1 r = Some f)"
      using Cons.prems(2) ft the_Feature_later [OF Feature_init_later [OF fi]]
      by (auto simp: at2_defaultdict_set split: if_splits) blast+
    from Cons.IH [OF rec this] show ?thesis .
  next
    case False
    with Cons.prems(1) have "d' = d" and "later s s'"
      by (auto simp: later_refl split: sum.splits prod.splits dest: Feature_init_later)
    with Cons.prems(2) show ?thesis by (blast dest: the_Feature_later)
  qed
qed


lemma profile_setter_core:
  "snd (profile_setter ''core'' s) = s\<lparr> u_profile := ''core'' \<rparr>"
  by (simp add: profile_setter_def)

lemma features_first_access:
  assumes "u_features self = None" and "fst (features py_int self) = Inr fs"
  shows "\<exists>s1. features_loop py_int (iter (root self) ''feature'') [] self = (None, fs, s1)
              \<and> snd (features py_int self) = s1\<lparr> u_features := Some fs \<rparr>"
  using assms by (auto simp: features_def split: prod.splits option.splits)

lemma derived_tables_ok: "derived s en cm \<Longrightarrow> tables_ok s en cm"
  by (simp add: derived_def tables_ok_def enums_cached commands_cached)

lemma tables_ok_spec_data:
  assumes "tables_ok s en cm"
  shows "\<exists>s2. spec_data t s = (select_data t en cm, s2) \<and> derived s2 en cm
              \<and> later s s2 \<and> u_remove s2 = u_remove s"
proof -
  obtain r1 s1 where e: "enums s = (r1, s1)" by (cases "enums s")
  obtain r2 s2 where c: "commands s1 = (r2, s2)" by (cases "commands s1")
  from assms e c have r: "r1 = Inr en" "r2 = Inr cm" by (simp_all add: tables_ok_def)
  from e c r have sd: "spec_data t s = (select_data t en cm, s2)"
    by (simp add: spec_data_def)
  from spec_data_shape [OF sd] have l: "later s s2" "u_remove s2 = u_remove s" by simp_all
  from enums_shape [OF e] r have "u_enums s1 = Some en" by simp
  moreover from commands_later [OF c] have "u_enums s2 = u_enums s1" by simp
  moreover from commands_shape [OF c] r have "u_commands s2 = Some cm" by simp
  ultimately have "derived s2 en cm" by (simp add: derived_def)
  with sd l show ?thesis by blast
qed

lemma select_data_ok:
  "tag x \<in> set [''type'', ''enum'', ''command''] \<Longrightarrow> tag x \<noteq> ''type''
   \<Longrightarrow> \<exists>data. select_data (tag x) en cm = Inr data"
  by (auto simp: select_data_def)

lemma require_loop_ok:
  "tables_ok s en cm \<Longrightarrow> entry_tags_ok es
   \<Longrightarrow> \<exists>s'. require_loop es req s
              = (Inr (req @ List.map_filter (resolve en cm) (nontype es)), s')
            \<and> tables_ok s' en cm \<and> later s s' \<and> u_remove s' = u_remove s"
proof (induction es arbitrary: req s)
  case Nil
  then show ?case by (simp add: nontype_def map_filter_simps later_refl)
next
  case (Cons x es)
  from Cons.prems(2) have tx: "tag x \<in> set [''type'', ''enum'', ''command'']"
    and tes: "entry_tags_ok es"
    by (simp_all add: entry_tags_ok_def)
  show ?case
  proof (cases "tag x = ''type''")
    case True
    with Cons.IH [OF Cons.prems(1) tes, of req] show ?thesis by (simp add: nontype_def)
  next
    case False
    from tables_ok_spec_data [OF Cons.prems(1), of "tag x"] obtain s2 where
      sd: "spec_data (tag x) s = (select_data (tag x) en cm, s2)" and d2: "derived s2 en cm"
      and l2: "later s s2" and r2: "u_remove s2 = u_remove s"
      by blast
    from select_data_ok [OF tx False] obtain data where sel: "select_data (tag x) en cm = Inr data"
      by blast
    obtain ro where lk: "lookup_entry data x = Inr ro" using lookup_entry_Inr by blast
    note rs = resolve_lookup [OF sel lk]
    let ?req1 = "req @ (case ro of None \<Rightarrow> [] | Some r \<Rightarrow> [r])"
    from Cons.IH [OF derived_tables_ok [OF d2] tes, of ?req1] obtain s' where
      rec: "require_loop es ?req1 s2
              = (Inr (?req1 @ List.map_filter (resolve en cm) (nontype es)), s')"
      and ok: "tables_ok s' en cm" and l: "later s2 s'" and r: "u_remove s' = u_remove s2"
      by blast
    from False sd sel lk rec rs
    have "require_loop (x # es) req s
        = (Inr (req @ List.map_filter (resolve en cm) (nontype (x # es))), s')"
      by (cases ro) (auto simp: nontype_def map_filter_simps)
    with ok later_trans [OF l2 l] r r2 show ?thesis by simp
  qed
qed

lemma remove_loop_ok:
  "tables_ok s en cm \<Longrightarrow> entry_tags_ok es
   \<Longrightarrow> \<exists>s'. remove_loop es s = (Inr (), s')
            \<and> u_remove s' = u_remove s \<union> set (List.map_filter (resolve en cm) (nontype es))"
proof (induction es arbitrary: s)
  case Nil
  then show ?case by (simp add: nontype_def map_filter_simps)
next
  case (Cons x es)
  from Cons.prems(2) have tx: "tag x \<in> set [''type'', ''enum'', ''command'']"
    and tes: "entry_tags_ok es"
    by (simp_all add: entry_tags_ok_def)
  show ?case
  proof (cases "tag x = ''type''")
    case True
    with Cons.IH [OF Cons.prems(1) tes] show ?thesis by (simp add: nontype_def)
  next
    case False
    from tables_ok_spec_data [OF Cons.prems(1), of "tag x"] obtain s2 where
      sd: "spec_data (tag x) s = (select_data (tag x) en cm, s2)" and d2: "derived s2 en cm"
      and r2: "u_remove s2 = u_remove s"
      by blast
    from select_data_ok [OF tx False] obtain data where sel: "select_data (tag x) en cm = Inr data"
      by blast
    obtain ro where lk: "lookup_entry data x = Inr ro" using lookup_entry_Inr by blast
    note rs = resolve_lookup [OF sel lk]
    let ?s1 = "case ro of None \<Rightarrow> s2 | Some r \<Rightarrow> s2\<lparr> u_remove := insert r (u_remove s2) \<rparr>"
    from d2 have "derived ?s1 en cm" by (cases ro) (simp_all add: derived_def)
    from Cons.IH [OF derived_tables_ok [OF this] tes] obtain s' where
      rec: "remove_loop es ?s1 = (Inr (), s')"
      and r: "u_remove s' = u_remove ?s1 \<union> set (List.map_filter (resolve en cm) (nontype es))"
      by blast
    from False sd sel lk rec have "remove_loop (x # es) s = (Inr (), s')"
      by (cases ro) auto
    moreover from r r2 rs False
    have "u_remove s' = u_remove s \<union> set (List.map_filter (resolve en cm) (nontype (x # es)))"
      by (cases ro) (auto simp: nontype_def map_filter_simps)
    ultimately show ?thesis by blast
  qed
qed

lemma resolve_Some:
  "resolve en cm x = Some c
   \<Longrightarrow> \<exists>nm. attrib_at x ''name'' = Inr nm
          \<and> ((tag x = ''enum'' \<and> map_of en nm = Some c)
             \<or> (tag x = ''command'' \<and> map_of cm (Some nm) = Some c))"
  by (auto simp: resolve_def select_data_def lookup_entry_def except_KeyError_def dict_at_def
      split: if_splits sum.splits option.splits)

lemma resolve_unknown_name:
  "attrib_at x ''name'' = Inr nm
   \<Longrightarrow> (tag x = ''enum'' \<and> map_of en nm = None) \<or> (tag x = ''command'' \<and> map_of cm (Some nm) = None)
   \<Longrightarrow> resolve en cm x = None"
  by (auto simp: resolve_def select_data_def lookup_entry_def except_KeyError_def dict_at_def
      split: if_splits sum.splits option.splits)

lemma Extension_fields_ok:
  assumes "tables_ok s en cm" and "attrib_at element ''name'' = Inr n"
    and "entry_tags_ok (block_entries element ''require'')"
  shows "\<exists>s'. Extension_fields element s
            = (Inr \<lparr> Extension.name = n,
                     require = List.map_filter (resolve en cm)
                                 (nontype (block_entries element ''require'')) \<rparr>, s')
          \<and> tables_ok s' en cm \<and> u_remove s' = u_remove s"
proof -
  from require_loop_ok [OF assms(1) assms(3), of "[]"] obtain s' where
    "require_loop (block_entries element ''require'') [] s
       = (Inr (List.map_filter (resolve en cm) (nontype (block_entries element ''require''))), s')"
    and "tables_ok s' en cm" and "u_remove s' = u_remove s"
    by auto
  with assms(2) show ?thesis by (simp add: Extension_fields_def)
qed










lemma the_Enum_append:
  "the_Enum s r = Some x \<Longrightarrow> the_Enum (s\<lparr> heap := heap s @ ys \<rparr>) r = Some x"
  by (auto simp: the_Enum_def deref_def nth_append split: if_splits option.splits obj.splits)

lemma enums_keyed_append: "enums_keyed d s \<Longrightarrow> enums_keyed d (s\<lparr> heap := heap s @ ys \<rparr>)"
  unfolding enums_keyed_def by (blast intro: the_Enum_append)

lemma enums_keyed_alloc:
  assumes "enums_keyed d s" and "alloc (EnumObj x) s = (r, s1)" and "Enum.name x = n"
  shows "enums_keyed (AList.update n r d) s1"
proof -
  from assms(2) have r: "r = length (heap s)" and s1: "s1 = s\<lparr> heap := heap s @ [EnumObj x] \<rparr>"
    by (auto simp: alloc_def)
  have new: "the_Enum s1 r = Some x"
    by (simp add: r s1 the_Enum_def deref_def)
  from enums_keyed_append [OF assms(1), of "[EnumObj x]"] have old: "enums_keyed d s1"
    by (simp add: s1)
  show ?thesis
    unfolding enums_keyed_def
  proof (intro allI impI)
    fix n' r'
    assume "map_of (AList.update n r d) n' = Some r'"
    then have "(n' = n \<and> r' = r) \<or> map_of d n' = Some r'"
      by (simp add: update_conv' split: if_splits)
    then show "\<exists>x. the_Enum s1 r' = Some x \<and> Enum.name x = n'"
    proof
      assume "n' = n \<and> r' = r"
      with new assms(3) show ?thesis by simp
    next
      assume "map_of d n' = Some r'"
      with old show ?thesis unfolding enums_keyed_def by blast
    qed
  qed
qed

lemma Enum_init_name: "Enum.name (Enum_init n v ns ty gr ve co) = n"
  by (simp add: Enum_init_def)

lemma enums_inner_keyed:
  "enums_inner ns ty gr ve co es d s = (err, d', s') \<Longrightarrow> enums_keyed d s \<Longrightarrow> enums_keyed d' s'"
proof (induction es arbitrary: d s)
  case Nil
  then show ?case by simp
next
  case (Cons enum es)
  show ?case
  proof (cases "\<exists>n v r s1. alloc (EnumObj (Enum_init n v ns ty gr ve co)) s = (r, s1)
        \<and> enums_inner ns ty gr ve co es (AList.update n r d) s1 = (err, d', s')")
    case True
    then obtain n v r s1 where a: "alloc (EnumObj (Enum_init n v ns ty gr ve co)) s = (r, s1)"
      and rec: "enums_inner ns ty gr ve co es (AList.update n r d) s1 = (err, d', s')"
      by blast
    from Cons.IH [OF rec enums_keyed_alloc [OF Cons.prems(2) a Enum_init_name]]
    show ?thesis .
  next
    case False
    with Cons.prems(1) have "(d' = d \<and> s' = s) \<or> enums_inner ns ty gr ve co es d s = (err, d', s')"
      by (auto split: if_splits sum.splits prod.splits)
    with Cons.IH Cons.prems(2) show ?thesis by blast
  qed
qed

lemma enums_outer_keyed:
  "enums_outer es d s = (err, d', s') \<Longrightarrow> enums_keyed d s \<Longrightarrow> enums_keyed d' s'"
proof (induction es arbitrary: d s)
  case Nil
  then show ?case by simp
next
  case (Cons element es)
  show ?case
  proof (cases "attrib_at element ''namespace''")
    case (Inl e)
    with Cons.prems show ?thesis by simp
  next
    case (Inr ns)
    obtain e1 d1 s1 where inner: "enums_inner ns (get element ''type'') (get element ''group'')
                  (get element ''vendor'') (get_default element ''comment'' [])
                  (children element) d s = (e1, d1, s1)"
      by (cases "enums_inner ns (get element ''type'') (get element ''group'')
                  (get element ''vendor'') (get_default element ''comment'' [])
                  (children element) d s") auto
    note k1 = enums_inner_keyed [OF inner Cons.prems(2)]
    show ?thesis
    proof (cases e1)
      case None
      with Inr inner Cons.prems(1) have "enums_outer es d1 s1 = (err, d', s')" by simp
      from Cons.IH [OF this k1] show ?thesis .
    next
      case (Some e)
      with Inr inner Cons.prems(1) have "d' = d1" "s' = s1" by simp_all
      with k1 show ?thesis by simp
    qed
  qed
qed

lemma enums_first_access:
  assumes "u_enums self = None" and "fst (enums self) = Inr en"
  shows "\<exists>s1. enums_outer (iter (root self) ''enums'') [] self = (None, en, s1)
              \<and> snd (enums self) = s1\<lparr> u_enums := Some en \<rparr>"
  using assms by (auto simp: enums_def split: prod.splits option.splits)

lemma enums_table_keyed:
  assumes "u_enums self = None" and "fst (enums self) = Inr en"
  shows "enums_keyed en (snd (enums self))"
proof -
  from enums_first_access [OF assms] obtain s1 where
    o: "enums_outer (iter (root self) ''enums'') [] self = (None, en, s1)"
    and s': "snd (enums self) = s1\<lparr> u_enums := Some en \<rparr>"
    by blast
  have "enums_keyed [] self" by (simp add: enums_keyed_def)
  from enums_outer_keyed [OF o this] have "enums_keyed en s1" .
  moreover have "the_Enum (snd (enums self)) = the_Enum s1"
    by (rule ext) (simp add: s' the_Enum_def deref_def)
  ultimately show ?thesis by (simp add: enums_keyed_def)
qed

lemma commands_item_name:
  "commands_item element = Inr (k, c) \<Longrightarrow> Proto.name (proto c) = k"
  by (auto simp: commands_item_def Command_init_def Proto_init_def
      split: option.splits sum.splits)

lemma mapM_member:
  "mapM f xs = Inr ys \<Longrightarrow> y \<in> set ys \<Longrightarrow> \<exists>x \<in> set xs. f x = Inr y"
proof (induction xs arbitrary: ys)
  case Nil
  then show ?case by simp
next
  case (Cons x xs)
  from Cons.prems(1) obtain z zs where z: "f x = Inr z" and zs: "mapM f xs = Inr zs"
    and ys: "ys = z # zs"
    by (auto split: sum.splits)
  from Cons.prems(2) ys have "y = z \<or> y \<in> set zs" by simp
  then show ?case
  proof
    assume "y = z"
    with z show ?thesis by simp
  next
    assume "y \<in> set zs"
    from Cons.IH [OF zs this] show ?thesis by auto
  qed
qed

lemma deref_append:
  "deref s r = Some ob \<Longrightarrow> deref (s\<lparr> heap := heap s @ ys \<rparr>) r = Some ob"
  by (auto simp: deref_def nth_append split: if_splits)

lemma alloc_items_objs:
  "alloc_items items s = (krs, s') \<Longrightarrow> (k, r) \<in> set krs
   \<Longrightarrow> \<exists>ob. (k, ob) \<in> set items \<and> deref s' r = Some ob"
proof (induction items arbitrary: s krs s')
  case Nil
  then show ?case by simp
next
  case (Cons a items)
  obtain k0 ob0 where a: "a = (k0, ob0)" by (cases a)
  obtain r0 s1 where al: "alloc ob0 s = (r0, s1)" by (cases "alloc ob0 s")
  obtain krs1 s2 where rec: "alloc_items items s1 = (krs1, s2)" by (cases "alloc_items items s1")
  from Cons.prems(1) a al rec have krs: "krs = (k0, r0) # krs1" and s': "s' = s2" by simp_all
  from Cons.prems(2) krs have "(k, r) = (k0, r0) \<or> (k, r) \<in> set krs1" by simp
  then show ?case
  proof
    assume eq: "(k, r) = (k0, r0)"
    from al have "deref s1 r0 = Some ob0" by (auto simp: alloc_def deref_def)
    moreover from alloc_items_heap [OF rec] obtain ys where "s2 = s1\<lparr> heap := heap s1 @ ys \<rparr>" ..
    ultimately have "deref s2 r0 = Some ob0" by (simp add: deref_append)
    with eq a s' show ?thesis by auto
  next
    assume "(k, r) \<in> set krs1"
    from Cons.IH [OF rec this] s' show ?thesis by auto
  qed
qed

lemma foldl_update_member:
  "map_of (foldl (\<lambda>d kv. AList.update (fst kv) (snd kv) d) d0 krs) k = Some r
   \<Longrightarrow> (k, r) \<in> set krs \<or> map_of d0 k = Some r"
proof (induction krs arbitrary: d0)
  case Nil
  then show ?case by simp
next
  case (Cons a krs)
  from Cons.prems have "map_of (foldl (\<lambda>d kv. AList.update (fst kv) (snd kv) d)
      (AList.update (fst a) (snd a) d0) krs) k = Some r"
    by simp
  from Cons.IH [OF this]
  have "(k, r) \<in> set krs \<or> map_of (AList.update (fst a) (snd a) d0) k = Some r" .
  then show ?case
    by (cases a) (auto simp: update_conv' split: if_splits)
qed

lemma dict_of_member: "map_of (dict_of krs) k = Some r \<Longrightarrow> (k, r) \<in> set krs"
  using foldl_update_member [of "[]" krs k r] by (simp add: dict_of_def)

lemma commands_first_access:
  assumes "u_commands self = None" and "fst (commands self) = Inr cm"
  shows "\<exists>node items krs s1. find (root self) ''commands'' = Some node
              \<and> mapM commands_item (children node) = Inr items
              \<and> alloc_items (map (\<lambda>kc. (fst kc, CommandObj (snd kc))) items) self = (krs, s1)
              \<and> cm = dict_of krs
              \<and> snd (commands self) = s1\<lparr> u_commands := Some cm \<rparr>"
  using assms
  by (auto simp: commands_def iterating_def split: prod.splits option.splits sum.splits)

lemma commands_table_keyed:
  assumes "u_commands self = None" and "fst (commands self) = Inr cm"
  shows "commands_keyed cm (snd (commands self))"
proof -
  from commands_first_access [OF assms] obtain node items krs s1 where
    m: "mapM commands_item (children node) = Inr items"
    and al: "alloc_items (map (\<lambda>kc. (fst kc, CommandObj (snd kc))) items) self = (krs, s1)"
    and cm: "cm = dict_of krs"
    and s': "snd (commands self) = s1\<lparr> u_commands := Some cm \<rparr>"
    by blast
  have same: "the_Command (snd (commands self)) = the_Command s1"
    by (rule ext) (simp add: s' the_Command_def deref_def)
  show ?thesis
    unfolding commands_keyed_def
  proof (intro allI impI)
    fix k r
    assume "map_of cm k = Some r"
    with cm have "(k, r) \<in> set krs" by (simp add: dict_of_member)
    from alloc_items_objs [OF al this] obtain ob where
      ob: "(k, ob) \<in> set (map (\<lambda>kc. (fst kc, CommandObj (snd kc))) items)"
      and d: "deref s1 r = Some ob"
      by blast
    from ob obtain c where c: "(k, c) \<in> set items" and obc: "ob = CommandObj c" by auto
    from mapM_member [OF m c] obtain element where "commands_item element = Inr (k, c)" by blast
    then have "Proto.name (proto c) = k" by (rule commands_item_name)
    moreover from d obc have "the_Command s1 r = Some c" by (simp add: the_Command_def)
    ultimately show "\<exists>c. the_Command (snd (commands self)) r = Some c \<and> Proto.name (proto c) = k"
      by (simp add: same)
  qed
qed









section \<open>OGLType: the two renderings of \<open>const void **\<close>\<close>

text \<open>
  C5. A type occurrence without \<open>ptype\<close> child whose concatenated text is
  \<open>const void **\<close> is parsed to base type \<open>void\<close>, pointer depth 2, const; its
  declarative rendering \<open>to_d\<close> is \<open>const(void*)*\<close> and its call-compatible rendering
  \<open>to_c\<close> is \<open>const void**\<close>.
\<close>

theorem const_void_ptr_ptr_renderings:
  assumes "find element ''ptype'' = None"
    and "join_empty (itertext element) = ''const void **''"
  shows "OGLType_init element = Inr \<lparr> OGLType.type = Some ''void'', is_pointer = 2, is_const = True \<rparr>
       \<and> to_d \<lparr> OGLType.type = Some ''void'', is_pointer = 2, is_const = True \<rparr> = Inr ''const(void*)*''
       \<and> to_c \<lparr> OGLType.type = Some ''void'', is_pointer = 2, is_const = True \<rparr> = Inr ''const void**''"
proof -
  have tok: "first_token ''const void **'' = Inr ''void''"
    by (simp add: first_token_def index0_def split_None_1_def strip_def strip_chars_def
        whitespace_def)
  have cnt: "count_char CHR ''*'' ''const void **'' = 2"
    by (simp add: count_char_def)
  have cst: "contains ''const void **'' ''const''"
    by (simp add: startswith_def)
  have init: "OGLType_init element
      = Inr \<lparr> OGLType.type = Some ''void'', is_pointer = 2, is_const = True \<rparr>"
    using assms tok cnt cst by (simp add: OGLType_init_def)
  have d: "to_d \<lparr> OGLType.type = Some ''void'', is_pointer = 2, is_const = True \<rparr>
      = Inr ''const(void*)*''"
    by (simp add: to_d_def add_stars_def format_str_def stars_def replace_def startswith_def)
  have c: "to_c \<lparr> OGLType.type = Some ''void'', is_pointer = 2, is_const = True \<rparr>
      = Inr ''const void**''"
    by (simp add: to_c_def add_stars_def format_str_def stars_def numeral_2_eq_2)
  from init d c show ?thesis by simp
qed

theorem const_void_ptr_ptr_renderings_witness:
  "find (Element ''param'' [] (Some ''const void **'') None []) ''ptype'' = None
   \<and> join_empty (itertext (Element ''param'' [] (Some ''const void **'') None []))
       = ''const void **''
   \<and> OGLType_init (Element ''param'' [] (Some ''const void **'') None [])
       = Inr \<lparr> OGLType.type = Some ''void'', is_pointer = 2, is_const = True \<rparr>
   \<and> to_d \<lparr> OGLType.type = Some ''void'', is_pointer = 2, is_const = True \<rparr> = Inr ''const(void*)*''
   \<and> to_c \<lparr> OGLType.type = Some ''void'', is_pointer = 2, is_const = True \<rparr> = Inr ''const void**''"
proof -
  have f: "find (Element ''param'' [] (Some ''const void **'') None []) ''ptype'' = None"
    by (simp add: find_def)
  have t: "join_empty (itertext (Element ''param'' [] (Some ''const void **'') None []))
      = ''const void **''"
    by (simp add: join_empty_def truthy_def)
  from const_void_ptr_ptr_renderings [OF f t] f t show ?thesis by simp
qed

section \<open>OGLType: the base type name of a type occurrence without \<open>ptype\<close>\<close>

text \<open>
  C9. The base type name is meant to be the first whitespace-delimited token after a
  leading \<open>const\<close> keyword is removed. \<open>strip('const')\<close> removes the letters c, o, n, s, t
  from both ends instead, so the text \<open>short *\<close> gives \<open>hort\<close>, and so does the
  parameter \<^verbatim>\<open><param>short *<name>v</name></param>\<close>.
\<close>

theorem base_type_of_short_is_hort:
  "first_token ''short *'' = Inr ''hort''
   \<and> map_sum id OGLType.type
         (OGLType_init (Element ''param'' [] (Some ''short *'') None
            [Element ''name'' [] (Some ''v'') None []]))
       = Inr (Some ''hort'')"
proof -
  have a: "first_token ''short *'' = Inr ''hort''"
    by (simp add: first_token_def index0_def split_None_1_def strip_def strip_chars_def
        whitespace_def)
  have b: "first_token ''short *v'' = Inr ''hort''"
    by (simp add: first_token_def index0_def split_None_1_def strip_def strip_chars_def
        whitespace_def)
  have c: "join_empty (itertext (Element ''param'' [] (Some ''short *'') None
            [Element ''name'' [] (Some ''v'') None []])) = ''short *v''"
    by (simp add: join_empty_def truthy_def)
  have d: "find (Element ''param'' [] (Some ''short *'') None
            [Element ''name'' [] (Some ''v'') None []]) ''ptype'' = None"
    by (simp add: find_def)
  from a b c d show ?thesis by (simp add: OGLType_init_def Let_def)
qed

section \<open>The profile setter\<close>

text \<open>
  C3. Assigning a string other than \<open>core\<close> and \<open>compatability\<close> raises ValueError and
  leaves the state, the stored profile included, as it was; assigning \<open>core\<close> or
  \<open>compatability\<close> succeeds and stores the value.
\<close>

theorem profile_setter_validates:
  "(v \<noteq> ''core'' \<and> v \<noteq> ''compatability'' \<longrightarrow> profile_setter v self = (Inl ValueError, self))
   \<and> (v = ''core'' \<or> v = ''compatability'' \<longrightarrow>
        profile_setter v self = (Inr (), self\<lparr> u_profile := v \<rparr>)
        \<and> profile (snd (profile_setter v self)) = v)"
  by (auto simp: profile_setter_def profile_def)

theorem profile_setter_validates_witness:
  "profile_setter ''gles'' (OpenGLSpec_init (Element ''registry'' [] None None []))
     = (Inl ValueError, OpenGLSpec_init (Element ''registry'' [] None None []))
   \<and> profile (snd (profile_setter ''core''
        (OpenGLSpec_init (Element ''registry'' [] None None [])))) = ''core''"
  using profile_setter_validates [of "''gles''" "OpenGLSpec_init (Element ''registry'' [] None None [])"]
    profile_setter_validates [of "''core''" "OpenGLSpec_init (Element ''registry'' [] None None [])"]
  by (simp add: profile_def)

section \<open>The \<open>removed\<close> query\<close>

text \<open>
  C2. \<open>removed\<close> is empty when the profile is \<open>compatability\<close> (or anything but
  \<open>core\<close>) and is the removal set accumulated so far when the profile is \<open>core\<close>. It
  is computed at query time: under \<open>core\<close>, the query after a Feature has been
  constructed returns the earlier answer together with every object that the Feature's
  \<open>remove\<close> entries resolved.
\<close>

theorem removed_follows_profile_and_removal_set:
  "(u_profile self \<noteq> ''core'' \<longrightarrow> removed self = {})
   \<and> (u_profile self = ''compatability'' \<longrightarrow> removed self = {})
   \<and> (u_profile self = ''core'' \<longrightarrow> removed self = u_remove self)
   \<and> (u_profile self = ''core'' \<and> fst (Feature_init py_int element self) = Inr f
      \<longrightarrow> removed (snd (Feature_init py_int element self))
          = removed self
            \<union> {r. \<exists>x \<in> set (block_entries element ''remove'').
                    tag x \<noteq> ''type''
                    \<and> resolve_in (snd (Feature_init py_int element self)) x = Some r})"
proof (intro conjI impI)
  assume a: "u_profile self = ''core'' \<and> fst (Feature_init py_int element self) = Inr f"
  obtain s' where fi: "Feature_init py_int element self = (Inr f, s')"
    using a by (cases "Feature_init py_int element self") auto
  from Feature_init_later [OF fi] a have p: "u_profile s' = ''core''" by (simp add: later_def)
  have "set (List.map_filter (resolve_in s') (nontype (block_entries element ''remove'')))
      = {r. \<exists>x \<in> set (block_entries element ''remove''). tag x \<noteq> ''type'' \<and> resolve_in s' x = Some r}"
    by (auto simp: set_map_filter nontype_def)
  with Feature_init_result [OF fi] a p fi
  show "removed (snd (Feature_init py_int element self))
          = removed self
            \<union> {r. \<exists>x \<in> set (block_entries element ''remove'').
                    tag x \<noteq> ''type''
                    \<and> resolve_in (snd (Feature_init py_int element self)) x = Some r}"
    by (simp add: removed_def)
qed (simp_all add: removed_def)

theorem removed_follows_profile_and_removal_set_witness:
  "u_profile example_core = ''core''
   \<and> fst (Feature_init dec_int example_feature_2 example_core) = Inr 3
   \<and> removed (snd (Feature_init dec_int example_feature_2 example_core))
       = removed example_core
         \<union> {r. \<exists>x \<in> set (block_entries example_feature_2 ''remove'').
                 tag x \<noteq> ''type''
                 \<and> resolve_in (snd (Feature_init dec_int example_feature_2 example_core)) x
                     = Some r}
   \<and> removed (snd (Feature_init dec_int example_feature_2 example_core)) = {1}"
proof -
  have p: "u_profile example_core = ''core''"
    by code_simp
  have f: "fst (Feature_init dec_int example_feature_2 example_core) = Inr 3"
    by code_simp
  have r: "removed (snd (Feature_init dec_int example_feature_2 example_core)) = {1}"
    by code_simp
  from removed_follows_profile_and_removal_set
    [of example_core dec_int example_feature_2 3] p f r
  show ?thesis by simp
qed

section \<open>The constructor from a string\<close>

text \<open>
  C8. \<open>fromstring\<close> is meant to return the OpenGLSpec of the tree parsed from its
  argument. Its body passes the unbound name \<open>raw\<close> to the parser, so every call
  raises NameError, whatever the string and the parser.
\<close>

theorem fromstring_raises_NameError:
  "fromstring etree_fromstring string = Inl NameError"
  by (simp add: fromstring_def load_name_def module_names_def)

section \<open>Documents without a container node\<close>

text \<open>
  C10. On first access (the cache is still None), \<open>groups\<close>, \<open>commands\<close> and
  \<open>extensions\<close> raise TypeError when the root has no child with that tag, while
  \<open>enums\<close>, \<open>features\<close> and \<open>types\<close> are empty, without error, when no node of the
  tree has the tag \<open>enums\<close>, \<open>feature\<close>, \<open>types\<close>.
\<close>

theorem missing_containers_raise_missing_nodes_give_empty:
  "(u_groups self = None \<and> (\<forall>c \<in> set (children (root self)). tag c \<noteq> ''groups'')
      \<longrightarrow> fst (groups self) = Inl TypeError)
   \<and> (u_commands self = None \<and> (\<forall>c \<in> set (children (root self)). tag c \<noteq> ''commands'')
      \<longrightarrow> fst (commands self) = Inl TypeError)
   \<and> (u_extensions self = None \<and> (\<forall>c \<in> set (children (root self)). tag c \<noteq> ''extensions'')
      \<longrightarrow> fst (extensions self) = Inl TypeError)
   \<and> (u_enums self = None \<and> (\<forall>x \<in> set (nodes (root self)). tag x \<noteq> ''enums'')
      \<longrightarrow> fst (enums self) = Inr [])
   \<and> (u_features self = None \<and> (\<forall>x \<in> set (nodes (root self)). tag x \<noteq> ''feature'')
      \<longrightarrow> fst (features py_int self) = Inr [])
   \<and> (u_types self = None \<and> (\<forall>x \<in> set (nodes (root self)). tag x \<noteq> ''types'')
      \<longrightarrow> fst (types self) = [])"
proof (intro conjI impI)
  assume "u_groups self = None \<and> (\<forall>c \<in> set (children (root self)). tag c \<noteq> ''groups'')"
  then show "fst (groups self) = Inl TypeError"
    by (simp add: groups_def iterating_def find_absent)
next
  assume "u_commands self = None \<and> (\<forall>c \<in> set (children (root self)). tag c \<noteq> ''commands'')"
  then show "fst (commands self) = Inl TypeError"
    by (simp add: commands_def iterating_def find_absent)
next
  assume "u_extensions self = None \<and> (\<forall>c \<in> set (children (root self)). tag c \<noteq> ''extensions'')"
  then show "fst (extensions self) = Inl TypeError"
    by (simp add: extensions_def iterating_def find_absent)
next
  assume "u_enums self = None \<and> (\<forall>x \<in> set (nodes (root self)). tag x \<noteq> ''enums'')"
  then show "fst (enums self) = Inr []"
    by (simp add: enums_def iter_empty)
next
  assume "u_features self = None \<and> (\<forall>x \<in> set (nodes (root self)). tag x \<noteq> ''feature'')"
  then show "fst (features py_int self) = Inr []"
    by (simp add: features_def iter_empty)
next
  assume "u_types self = None \<and> (\<forall>x \<in> set (nodes (root self)). tag x \<noteq> ''types'')"
  then show "fst (types self) = []"
    by (simp add: types_def iter_empty)
qed

theorem missing_containers_raise_missing_nodes_give_empty_witness:
  "fst (groups (OpenGLSpec_init (Element ''registry'' [] None None
          [Element ''comment'' [] (Some ''empty'') None []]))) = Inl TypeError
   \<and> fst (commands (OpenGLSpec_init (Element ''registry'' [] None None
          [Element ''comment'' [] (Some ''empty'') None []]))) = Inl TypeError
   \<and> fst (extensions (OpenGLSpec_init (Element ''registry'' [] None None
          [Element ''comment'' [] (Some ''empty'') None []]))) = Inl TypeError
   \<and> fst (enums (OpenGLSpec_init (Element ''registry'' [] None None
          [Element ''comment'' [] (Some ''empty'') None []]))) = Inr []
   \<and> fst (features dec_int (OpenGLSpec_init (Element ''registry'' [] None None
          [Element ''comment'' [] (Some ''empty'') None []]))) = Inr []
   \<and> fst (types (OpenGLSpec_init (Element ''registry'' [] None None
          [Element ''comment'' [] (Some ''empty'') None []]))) = []"
  using missing_containers_raise_missing_nodes_give_empty
    [of "OpenGLSpec_init (Element ''registry'' [] None None
          [Element ''comment'' [] (Some ''empty'') None []])" dec_int]
  by (simp add: OpenGLSpec_init_def)

section \<open>The removal set is shared by all Features\<close>

text \<open>
  C1. After the \<open>features\<close> collection has been derived, under profile \<open>core\<close>: every
  object \<open>c\<close> that an \<open>enum\<close> or \<open>command\<close> entry of any Feature's \<open>remove\<close> blocks
  resolved is in \<open>removed\<close>, and for every Feature of the collection, whatever its
  version, \<open>c\<close> is in neither its \<open>functions\<close> nor its \<open>enums\<close> view.
\<close>

theorem removal_set_is_global:
  assumes "u_features self = None" and "fst (features py_int self) = Inr fs"
  shows "\<forall>element \<in> set (iter (root self) ''feature'').
         \<forall>x \<in> set (block_entries element ''remove''). \<forall>c.
           tag x \<noteq> ''type''
           \<and> resolve_in (snd (profile_setter ''core'' (snd (features py_int self)))) x = Some c
           \<longrightarrow> c \<in> removed (snd (profile_setter ''core'' (snd (features py_int self))))
               \<and> (\<forall>a n r. at2 fs a n = Some r \<longrightarrow>
                     (\<exists>f. the_Feature (snd (profile_setter ''core'' (snd (features py_int self)))) r
                            = Some f
                          \<and> c \<notin> set (Feature_functions
                                (snd (profile_setter ''core'' (snd (features py_int self)))) f)
                          \<and> c \<notin> set (Feature_enums
                                (snd (profile_setter ''core'' (snd (features py_int self)))) f)))"
proof -
  let ?q = "snd (profile_setter ''core'' (snd (features py_int self)))"
  from features_first_access [OF assms] obtain s1 where
    loop: "features_loop py_int (iter (root self) ''feature'') [] self = (None, fs, s1)"
    and s1: "snd (features py_int self) = s1\<lparr> u_features := Some fs \<rparr>"
    by blast
  have q: "?q = s1\<lparr> u_features := Some fs, u_profile := ''core'' \<rparr>"
    by (simp add: s1 profile_setter_core)
  have res: "resolve_in ?q = resolve_in s1"
    by (rule resolve_in_cong) (simp_all add: q)
  have rem: "removed ?q = u_remove s1"
    by (simp add: q removed_def)
  have feat: "the_Feature ?q = the_Feature s1"
    by (rule ext) (simp add: q the_Feature_def deref_def)
  have ents: "\<forall>a n r. at2 fs a n = Some r \<longrightarrow> (\<exists>f. the_Feature s1 r = Some f)"
    using features_loop_entries [OF loop] by (simp add: at2_def)
  show ?thesis
  proof (intro ballI allI impI)
    fix element x c
    assume el: "element \<in> set (iter (root self) ''feature'')"
      and x: "x \<in> set (block_entries element ''remove'')"
      and c: "tag x \<noteq> ''type'' \<and> resolve_in ?q x = Some c"
    from x c have "c \<in> set (List.map_filter (resolve_in s1) (nontype (block_entries element ''remove'')))"
      by (auto simp: set_map_filter nontype_def res)
    with el features_loop_removals [OF loop] have "c \<in> u_remove s1" by blast
    then have cr: "c \<in> removed ?q" by (simp add: rem)
    have "\<forall>a n r. at2 fs a n = Some r \<longrightarrow>
            (\<exists>f. the_Feature ?q r = Some f
                 \<and> c \<notin> set (Feature_functions ?q f) \<and> c \<notin> set (Feature_enums ?q f))"
    proof (intro allI impI)
      fix a n r
      assume "at2 fs a n = Some r"
      with ents obtain f where "the_Feature s1 r = Some f" by blast
      then have "the_Feature ?q r = Some f" by (simp add: feat)
      moreover from cr have "c \<notin> set (Feature_functions ?q f)" "c \<notin> set (Feature_enums ?q f)"
        by (simp_all add: Feature_functions_def Feature_enums_def)
      ultimately show "\<exists>f. the_Feature ?q r = Some f
                 \<and> c \<notin> set (Feature_functions ?q f) \<and> c \<notin> set (Feature_enums ?q f)"
        by blast
    qed
    with cr show "c \<in> removed ?q
               \<and> (\<forall>a n r. at2 fs a n = Some r \<longrightarrow>
                     (\<exists>f. the_Feature ?q r = Some f
                          \<and> c \<notin> set (Feature_functions ?q f) \<and> c \<notin> set (Feature_enums ?q f)))"
      by blast
  qed
qed

theorem removal_set_is_global_witness:
  "u_features (OpenGLSpec_init example_registry) = None
   \<and> fst (features dec_int (OpenGLSpec_init example_registry))
       = Inr [(''gl'', [([1, 0], 3), ([2, 0], 4)])]
   \<and> example_feature_2 \<in> set (iter (root (OpenGLSpec_init example_registry)) ''feature'')
   \<and> example_entry ''command'' ''glFoo'' \<in> set (block_entries example_feature_2 ''remove'')
   \<and> resolve_in (snd (profile_setter ''core''
          (snd (features dec_int (OpenGLSpec_init example_registry)))))
        (example_entry ''command'' ''glFoo'') = Some 1
   \<and> 1 \<in> removed (snd (profile_setter ''core''
          (snd (features dec_int (OpenGLSpec_init example_registry)))))
   \<and> (\<exists>f. the_Feature (snd (profile_setter ''core''
                (snd (features dec_int (OpenGLSpec_init example_registry))))) 3 = Some f
          \<and> 1 \<in> set (require f)
          \<and> 1 \<notin> set (Feature_functions (snd (profile_setter ''core''
                (snd (features dec_int (OpenGLSpec_init example_registry))))) f))"
proof -
  let ?s = "OpenGLSpec_init example_registry"
  let ?q = "snd (profile_setter ''core'' (snd (features dec_int ?s)))"
  have h1: "u_features ?s = None"
    by code_simp
  have h2: "fst (features dec_int ?s) = Inr [(''gl'', [([1, 0], 3), ([2, 0], 4)])]"
    by code_simp
  have e: "example_feature_2 \<in> set (iter (root ?s) ''feature'')"
    by code_simp
  have x: "example_entry ''command'' ''glFoo'' \<in> set (block_entries example_feature_2 ''remove'')"
    by code_simp
  have t: "tag (example_entry ''command'' ''glFoo'') \<noteq> ''type''"
    by code_simp
  have c: "resolve_in ?q (example_entry ''command'' ''glFoo'') = Some 1"
    by code_simp
  have a: "at2 [(''gl'', [([1::int, 0], 3::nat), ([2, 0], 4)])] ''gl'' [1, 0] = Some 3"
    by code_simp
  have "map_option require (the_Feature ?q 3) = Some [1, 0]"
    by code_simp
  then have rq: "\<forall>f. the_Feature ?q 3 = Some f \<longrightarrow> 1 \<in> set (require f)"
    by auto
  from removal_set_is_global [OF h1 h2] e x t c
  have "1 \<in> removed ?q
        \<and> (\<forall>a n r. at2 [(''gl'', [([1::int, 0], 3::nat), ([2, 0], 4)])] a n = Some r \<longrightarrow>
              (\<exists>f. the_Feature ?q r = Some f
                   \<and> 1 \<notin> set (Feature_functions ?q f) \<and> 1 \<notin> set (Feature_enums ?q f)))"
    by blast
  with a rq h1 h2 e x c show ?thesis by blast
qed

section \<open>Unresolved references\<close>

text \<open>
  C4. When the \<open>enums\<close> and \<open>commands\<close> tables derive, the element has a \<open>name\<close> and
  its \<open>require\<close> entries are of kind \<open>type\<close>, \<open>enum\<close> or \<open>command\<close>, constructing the
  Extension succeeds whether or not the names resolve: an \<open>enum\<close> or \<open>command\<close> entry
  whose name is not in its table resolves to nothing and is skipped, and the \<open>require\<close>
  list (of which the views are sublists) holds exactly the resolved objects, in order.
  The same holds for a Feature, whose \<open>remove\<close> entries add exactly the resolved
  objects to the removal set.
\<close>

theorem unresolved_entries_are_skipped:
  assumes "fst (enums spec) = Inr en" and "fst (commands (snd (enums spec))) = Inr cm"
    and "attrib_at element ''name'' = Inr n"
    and "list_all (\<lambda>x. tag x \<in> set [''type'', ''enum'', ''command''])
           (block_entries element ''require'')"
  shows "(\<forall>x nm. attrib_at x ''name'' = Inr nm
             \<and> ((tag x = ''enum'' \<and> map_of en nm = None)
                \<or> (tag x = ''command'' \<and> map_of cm (Some nm) = None))
           \<longrightarrow> resolve en cm x = None)
       \<and> (\<exists>r s'. Extension_init element spec = (Inr r, s')
             \<and> the_Extension s' r
                 = Some \<lparr> Extension.name = n,
                          require = List.map_filter (resolve en cm)
                                      (nontype (block_entries element ''require'')) \<rparr>)
       \<and> (list_all (\<lambda>x. tag x \<in> set [''type'', ''enum'', ''command''])
             (block_entries element ''remove'')
           \<and> version_number py_int element = Inr num \<and> attrib_at element ''api'' = Inr a
           \<longrightarrow> (\<exists>r s'. Feature_init py_int element spec = (Inr r, s')
                  \<and> the_Feature s' r
                      = Some \<lparr> Extension.name = n,
                               require = List.map_filter (resolve en cm)
                                           (nontype (block_entries element ''require'')),
                               number = num, api = a \<rparr>
                  \<and> u_remove s' = u_remove spec
                       \<union> set (List.map_filter (resolve en cm)
                               (nontype (block_entries element ''remove'')))))"
proof (intro conjI allI impI)
  fix x nm
  assume "attrib_at x ''name'' = Inr nm
          \<and> ((tag x = ''enum'' \<and> map_of en nm = None)
             \<or> (tag x = ''command'' \<and> map_of cm (Some nm) = None))"
  then show "resolve en cm x = None" by (blast intro: resolve_unknown_name)
next
  from assms(1,2) have ok: "tables_ok spec en cm" by (simp add: tables_ok_def)
  from assms(4) have tg: "entry_tags_ok (block_entries element ''require'')"
    by (simp add: entry_tags_ok_def)
  from Extension_fields_ok [OF ok assms(3) tg] obtain s1 where
    f: "Extension_fields element spec
          = (Inr \<lparr> Extension.name = n,
                   require = List.map_filter (resolve en cm)
                               (nontype (block_entries element ''require'')) \<rparr>, s1)"
    by blast
  then show "\<exists>r s'. Extension_init element spec = (Inr r, s')
             \<and> the_Extension s' r
                 = Some \<lparr> Extension.name = n,
                          require = List.map_filter (resolve en cm)
                                      (nontype (block_entries element ''require'')) \<rparr>"
    by (simp add: Extension_init_def alloc_def the_Extension_def deref_def)
next
  assume h: "list_all (\<lambda>x. tag x \<in> set [''type'', ''enum'', ''command''])
             (block_entries element ''remove'')
           \<and> version_number py_int element = Inr num \<and> attrib_at element ''api'' = Inr a"
  from assms(1,2) have ok: "tables_ok spec en cm" by (simp add: tables_ok_def)
  from assms(4) have tg: "entry_tags_ok (block_entries element ''require'')"
    by (simp add: entry_tags_ok_def)
  from h have tr: "entry_tags_ok (block_entries element ''remove'')"
    by (simp add: entry_tags_ok_def)
  from Extension_fields_ok [OF ok assms(3) tg] obtain s1 where
    f: "Extension_fields element spec
          = (Inr \<lparr> Extension.name = n,
                   require = List.map_filter (resolve en cm)
                               (nontype (block_entries element ''require'')) \<rparr>, s1)"
    and ok1: "tables_ok s1 en cm" and r1: "u_remove s1 = u_remove spec"
    by blast
  from remove_loop_ok [OF ok1 tr] obtain s2 where
    rm: "remove_loop (block_entries element ''remove'') s1 = (Inr (), s2)"
    and r2: "u_remove s2 = u_remove s1
        \<union> set (List.map_filter (resolve en cm) (nontype (block_entries element ''remove'')))"
    by blast
  from f rm h r1 r2
  show "\<exists>r s'. Feature_init py_int element spec = (Inr r, s')
                  \<and> the_Feature s' r
                      = Some \<lparr> Extension.name = n,
                               require = List.map_filter (resolve en cm)
                                           (nontype (block_entries element ''require'')),
                               number = num, api = a \<rparr>
                  \<and> u_remove s' = u_remove spec
                       \<union> set (List.map_filter (resolve en cm)
                               (nontype (block_entries element ''remove'')))"
    by (simp add: Feature_init_def alloc_def the_Feature_def deref_def
        Extension.extend_def Extension.defs Feature.defs)
qed

theorem unresolved_entries_are_skipped_witness:
  "fst (enums (OpenGLSpec_init example_registry)) = Inr [(''FOO'', 0)]
   \<and> fst (commands (snd (enums (OpenGLSpec_init example_registry))))
       = Inr [(Some ''glFoo'', 1), (Some ''glBar'', 2)]
   \<and> attrib_at example_feature_1 ''name'' = Inr ''V1''
   \<and> list_all (\<lambda>x. tag x \<in> set [''type'', ''enum'', ''command''])
        (block_entries example_feature_1 ''require'')
   \<and> list_all (\<lambda>x. tag x \<in> set [''type'', ''enum'', ''command''])
        (block_entries example_feature_1 ''remove'')
   \<and> version_number dec_int example_feature_1 = Inr [1, 0]
   \<and> attrib_at example_feature_1 ''api'' = Inr ''gl''
   \<and> example_entry ''command'' ''glNope'' \<in> set (block_entries example_feature_1 ''require'')
   \<and> resolve [(''FOO'', 0)] [(Some ''glFoo'', 1), (Some ''glBar'', 2)]
        (example_entry ''command'' ''glNope'') = None
   \<and> (\<exists>r s'. Extension_init example_feature_1 (OpenGLSpec_init example_registry) = (Inr r, s')
         \<and> the_Extension s' r = Some \<lparr> Extension.name = ''V1'', require = [1, 0] \<rparr>)
   \<and> (\<exists>r s'. Feature_init dec_int example_feature_1 (OpenGLSpec_init example_registry)
                = (Inr r, s')
         \<and> the_Feature s' r
             = Some \<lparr> Extension.name = ''V1'', require = [1, 0], number = [1, 0], api = ''gl'' \<rparr>)"
proof -
  let ?s = "OpenGLSpec_init example_registry"
  let ?en = "[(''FOO'', 0::nat)]"
  let ?cm = "[(Some ''glFoo'', 1::nat), (Some ''glBar'', 2)]"
  have h1: "fst (enums ?s) = Inr ?en"
    by code_simp
  have h2: "fst (commands (snd (enums ?s))) = Inr ?cm"
    by code_simp
  have h3: "attrib_at example_feature_1 ''name'' = Inr ''V1''"
    by code_simp
  have h4: "list_all (\<lambda>x. tag x \<in> set [''type'', ''enum'', ''command''])
        (block_entries example_feature_1 ''require'')"
    by code_simp
  have h5: "list_all (\<lambda>x. tag x \<in> set [''type'', ''enum'', ''command''])
        (block_entries example_feature_1 ''remove'')"
    by code_simp
  have h6: "version_number dec_int example_feature_1 = Inr [1, 0]"
    by code_simp
  have h7: "attrib_at example_feature_1 ''api'' = Inr ''gl''"
    by code_simp
  have m: "example_entry ''command'' ''glNope'' \<in> set (block_entries example_feature_1 ''require'')"
    by code_simp
  have n: "attrib_at (example_entry ''command'' ''glNope'') ''name'' = Inr ''glNope''
           \<and> tag (example_entry ''command'' ''glNope'') = ''command''
           \<and> map_of ?cm (Some ''glNope'') = None"
    by code_simp
  have q: "List.map_filter (resolve ?en ?cm) (nontype (block_entries example_feature_1 ''require''))
           = [1, 0]"
    by code_simp
  note inst = unresolved_entries_are_skipped [OF h1 h2 h3 h4, of dec_int "[1, 0]" "''gl''"]
  from inst n have u: "resolve ?en ?cm (example_entry ''command'' ''glNope'') = None"
    by blast
  from inst have e: "\<exists>r s'. Extension_init example_feature_1 ?s = (Inr r, s')
         \<and> the_Extension s' r = Some \<lparr> Extension.name = ''V1'', require = [1, 0] \<rparr>"
    unfolding q by blast
  from inst h5 h6 h7 have f: "\<exists>r s'. Feature_init dec_int example_feature_1 ?s = (Inr r, s')
         \<and> the_Feature s' r
             = Some \<lparr> Extension.name = ''V1'', require = [1, 0], number = [1, 0], api = ''gl'' \<rparr>"
    unfolding q by blast
  from h1 h2 h3 h4 h5 h6 h7 m u e f show ?thesis by blast
qed

section \<open>Extensions supported by several API variants\<close>




section \<open>Equality and hash of Enum and Command\<close>

text \<open>
  C7, as the code has it. The hash of an Enum and of a Command is the hash of its name.
  Equality is identity, since no \<open>__eq__\<close> is defined: equal objects have equal names,
  and inside the \<open>enums\<close> table (and inside the \<open>commands\<close> table) that a spec derives,
  where each key is the name of its object, two entries are equal exactly when their
  names are equal.
\<close>

theorem equality_is_identity_hash_is_by_name:
  "Enum_hash py_hash e = py_hash (Some (Enum.name e))
   \<and> Command_hash py_hash c = py_hash (Proto.name (proto c))
   \<and> (object_eq a b \<and> the_Enum spec a = Some x \<and> the_Enum spec b = Some x'
      \<longrightarrow> Enum.name x = Enum.name x')
   \<and> (object_eq a b \<and> the_Command spec a = Some y \<and> the_Command spec b = Some y'
      \<longrightarrow> Proto.name (proto y) = Proto.name (proto y'))
   \<and> (u_enums self = None \<and> fst (enums self) = Inr en
      \<longrightarrow> (\<forall>n r n' r'. map_of en n = Some r \<and> map_of en n' = Some r'
            \<longrightarrow> (\<exists>x x'. the_Enum (snd (enums self)) r = Some x
                       \<and> the_Enum (snd (enums self)) r' = Some x'
                       \<and> (object_eq r r' \<longleftrightarrow> Enum.name x = Enum.name x'))))
   \<and> (u_commands self = None \<and> fst (commands self) = Inr cm
      \<longrightarrow> (\<forall>k r k' r'. map_of cm k = Some r \<and> map_of cm k' = Some r'
            \<longrightarrow> (\<exists>y y'. the_Command (snd (commands self)) r = Some y
                       \<and> the_Command (snd (commands self)) r' = Some y'
                       \<and> (object_eq r r' \<longleftrightarrow> Proto.name (proto y) = Proto.name (proto y')))))"
proof (intro conjI impI allI)
  show "Enum_hash py_hash e = py_hash (Some (Enum.name e))"
    by (simp add: Enum_hash_def)
next
  show "Command_hash py_hash c = py_hash (Proto.name (proto c))"
    by (simp add: Command_hash_def)
next
  assume "object_eq a b \<and> the_Enum spec a = Some x \<and> the_Enum spec b = Some x'"
  then show "Enum.name x = Enum.name x'" by (auto simp: object_eq_def)
next
  assume "object_eq a b \<and> the_Command spec a = Some y \<and> the_Command spec b = Some y'"
  then show "Proto.name (proto y) = Proto.name (proto y')" by (auto simp: object_eq_def)
next
  fix n r n' r'
  assume h: "u_enums self = None \<and> fst (enums self) = Inr en"
    and m: "map_of en n = Some r \<and> map_of en n' = Some r'"
  from h have k: "enums_keyed en (snd (enums self))" by (simp add: enums_table_keyed)
  from k m obtain x where x: "the_Enum (snd (enums self)) r = Some x" "Enum.name x = n"
    unfolding enums_keyed_def by blast
  from k m obtain x' where x': "the_Enum (snd (enums self)) r' = Some x'" "Enum.name x' = n'"
    unfolding enums_keyed_def by blast
  from m x x' have "object_eq r r' \<longleftrightarrow> Enum.name x = Enum.name x'"
    by (auto simp: object_eq_def)
  with x x' show "\<exists>x x'. the_Enum (snd (enums self)) r = Some x
                       \<and> the_Enum (snd (enums self)) r' = Some x'
                       \<and> (object_eq r r' \<longleftrightarrow> Enum.name x = Enum.name x')"
    by blast
next
  fix k r k' r'
  assume h: "u_commands self = None \<and> fst (commands self) = Inr cm"
    and m: "map_of cm k = Some r \<and> map_of cm k' = Some r'"
  from h have kd: "commands_keyed cm (snd (commands self))" by (simp add: commands_table_keyed)
  from kd m obtain y where y: "the_Command (snd (commands self)) r = Some y"
    "Proto.name (proto y) = k"
    unfolding commands_keyed_def by blast
  from kd m obtain y' where y': "the_Command (snd (commands self)) r' = Some y'"
    "Proto.name (proto y') = k'"
    unfolding commands_keyed_def by blast
  from m y y' have "object_eq r r' \<longleftrightarrow> Proto.name (proto y) = Proto.name (proto y')"
    by (auto simp: object_eq_def)
  with y y' show "\<exists>y y'. the_Command (snd (commands self)) r = Some y
                       \<and> the_Command (snd (commands self)) r' = Some y'
                       \<and> (object_eq r r' \<longleftrightarrow> Proto.name (proto y) = Proto.name (proto y'))"
    by blast
qed

theorem equality_is_identity_hash_is_by_name_witness:
  "u_enums (OpenGLSpec_init example_registry) = None
   \<and> fst (enums (OpenGLSpec_init example_registry)) = Inr [(''FOO'', 0)]
   \<and> u_commands (OpenGLSpec_init example_registry) = None
   \<and> fst (commands (OpenGLSpec_init example_registry))
       = Inr [(Some ''glFoo'', 0), (Some ''glBar'', 1)]
   \<and> object_eq 0 0
   \<and> the_Enum (snd (enums (OpenGLSpec_init example_registry))) 0
       = Some (Enum_init ''FOO'' ''0x1'' ''GL'' None None None [])
   \<and> (\<exists>y. the_Command (snd (commands (OpenGLSpec_init example_registry))) 0 = Some y)
   \<and> (\<exists>x x'. the_Enum (snd (enums (OpenGLSpec_init example_registry))) 0 = Some x
          \<and> the_Enum (snd (enums (OpenGLSpec_init example_registry))) 0 = Some x'
          \<and> (object_eq 0 0 \<longleftrightarrow> Enum.name x = Enum.name x'))
   \<and> (\<exists>y y'. the_Command (snd (commands (OpenGLSpec_init example_registry))) 0 = Some y
          \<and> the_Command (snd (commands (OpenGLSpec_init example_registry))) 1 = Some y'
          \<and> (object_eq 0 1 \<longleftrightarrow> Proto.name (proto y) = Proto.name (proto y')))"
proof -
  let ?s = "OpenGLSpec_init example_registry"
  let ?en = "[(''FOO'', 0::nat)]"
  let ?cm = "[(Some ''glFoo'', 0::nat), (Some ''glBar'', 1)]"
  let ?x = "Enum_init ''FOO'' ''0x1'' ''GL'' None None None []"
  have h1: "u_enums ?s = None"
    by code_simp
  have h2: "fst (enums ?s) = Inr ?en"
    by code_simp
  have h3: "u_commands ?s = None"
    by code_simp
  have h4: "fst (commands ?s) = Inr ?cm"
    by code_simp
  have q: "object_eq 0 0"
    by (simp add: object_eq_def)
  have x: "the_Enum (snd (enums ?s)) 0 = Some ?x"
    by code_simp
  have "the_Command (snd (commands ?s)) 0 \<noteq> None"
    by code_simp
  then obtain y where y: "the_Command (snd (commands ?s)) 0 = Some y" by blast
  have m1: "map_of ?en ''FOO'' = Some 0 \<and> map_of ?en ''FOO'' = Some 0"
    by simp
  have m2: "map_of ?cm (Some ''glFoo'') = Some 0 \<and> map_of ?cm (Some ''glBar'') = Some 1"
    by simp
  note inst1 = equality_is_identity_hash_is_by_name
    [of "\<lambda>k. 0" ?x undefined 0 0 "snd (enums ?s)" ?x ?x undefined undefined ?s ?en ?cm]
  note inst2 = equality_is_identity_hash_is_by_name
    [of "\<lambda>k. 0" ?x undefined 0 0 "snd (commands ?s)" undefined undefined y y ?s ?en ?cm]
  from inst1 q x have n1: "Enum.name ?x = Enum.name ?x"
    by blast
  from inst2 q y have n2: "Proto.name (proto y) = Proto.name (proto y)"
    by blast
  from inst1 h1 h2 m1
  have e: "\<exists>x x'. the_Enum (snd (enums ?s)) 0 = Some x \<and> the_Enum (snd (enums ?s)) 0 = Some x'
          \<and> (object_eq 0 0 \<longleftrightarrow> Enum.name x = Enum.name x')"
    by blast
  from inst2 h3 h4 m2
  have c: "\<exists>y y'. the_Command (snd (commands ?s)) 0 = Some y
          \<and> the_Command (snd (commands ?s)) 1 = Some y'
          \<and> (object_eq 0 1 \<longleftrightarrow> Proto.name (proto y) = Proto.name (proto y'))"
    by blast
  from h1 h2 h3 h4 q x y e c n1 n2 show ?thesis by blast
qed

text \<open>
  For two Enum objects in general the claim fails: constructing
  \<open>Enum('A', '1', 'GL')\<close> twice gives two objects with the same name that are not equal.
\<close>

theorem equal_names_unequal_objects_counterexample:
  "the_Enum two_enums 0 = Some example_enum
   \<and> the_Enum two_enums 1 = Some example_enum
   \<and> Enum.name example_enum = ''A''
   \<and> \<not> object_eq 0 1"
  by code_simp

end
